theory Spec2Isabelle
  imports Complex_Main "HOL-Library.Word"
begin

unbundle bit_operations_syntax

section \<open>Strings and bytes\<close>

text \<open>
  A JavaScript string is a sequence of UTF-16 code units; the body of a response arrives
  as chunks of bytes (\<open>Uint8Array\<close>).  String literals of the source are written with
  \<open>ascii\<close>, or as lists of code units where the source has characters beyond ASCII.
\<close>

type_synonym byte = "8 word"
type_synonym jstr = "16 word list"

definition ascii :: "string \<Rightarrow> jstr" where
  "ascii s = map of_char s"

text \<open>
  \<open>String.prototype.trim\<close> removes the code units of WhiteSpace and LineTerminator
  (ECMA-262) from both ends; the regular expression class \<open>\s\<close> is the same set.
\<close>

definition is_ws :: "16 word \<Rightarrow> bool" where
  "is_ws c = (c = 0x9 \<or> c = 0xA \<or> c = 0xB \<or> c = 0xC \<or> c = 0xD \<or> c = 0x20 \<or>
     c = 0xA0 \<or> c = 0x1680 \<or> (0x2000 \<le> c \<and> c \<le> 0x200A) \<or> c = 0x2028 \<or>
     c = 0x2029 \<or> c = 0x202F \<or> c = 0x205F \<or> c = 0x3000 \<or> c = 0xFEFF)"

definition trim :: "jstr \<Rightarrow> jstr" where
  "trim s = rev (dropWhile is_ws (rev (dropWhile is_ws s)))"

definition startsWith :: "jstr \<Rightarrow> jstr \<Rightarrow> bool" where
  "startsWith s p = (take (length p) s = p)"

text \<open>\<open>s.split("\n")\<close>: the result is never empty, \<open>"".split("\n")\<close> is \<open>[""]\<close>.\<close>

fun split_nl :: "jstr \<Rightarrow> jstr list" where
  "split_nl [] = [[]]"
| "split_nl (c # cs) =
     (if c = 0xA then [] # split_nl cs
      else (case split_nl cs of [] \<Rightarrow> [[c]] | l # ls \<Rightarrow> (c # l) # ls))"

section \<open>TextDecoder\<close>

text \<open>
  \<open>new TextDecoder()\<close> is the UTF-8 decoder of the WHATWG Encoding Standard with error mode
  replacement and BOM removal.  The record is the decoder's state between two calls of
  \<open>decode(value, { stream: true })\<close>: the bytes of an unfinished character are kept in it,
  not emitted.  The source never calls \<open>decode\<close> without \<open>stream\<close>, so the state is never
  flushed.
\<close>

record TextDecoder =
  code_point :: nat
  bytes_seen :: nat
  bytes_needed :: nat
  lower_boundary :: byte
  upper_boundary :: byte
  bom_seen :: bool

definition new_TextDecoder :: TextDecoder where
  "new_TextDecoder =
     \<lparr>code_point = 0, bytes_seen = 0, bytes_needed = 0,
      lower_boundary = 0x80, upper_boundary = 0xBF, bom_seen = False\<rparr>"

definition utf8_reset :: "TextDecoder \<Rightarrow> TextDecoder" where
  "utf8_reset d =
     d\<lparr>code_point := 0, bytes_seen := 0, bytes_needed := 0,
       lower_boundary := 0x80, upper_boundary := 0xBF\<rparr>"

text \<open>The handler for a byte when no character is in progress.\<close>

definition utf8_lead :: "TextDecoder \<Rightarrow> byte \<Rightarrow> TextDecoder \<times> nat list" where
  "utf8_lead d b =
     (if b \<le> 0x7F then (d, [unat b])
      else if 0xC2 \<le> b \<and> b \<le> 0xDF then
        (d\<lparr>code_point := unat (b AND 0x1F), bytes_needed := 1\<rparr>, [])
      else if 0xE0 \<le> b \<and> b \<le> 0xEF then
        (d\<lparr>code_point := unat (b AND 0xF), bytes_needed := 2,
           lower_boundary := (if b = 0xE0 then 0xA0 else lower_boundary d),
           upper_boundary := (if b = 0xED then 0x9F else upper_boundary d)\<rparr>, [])
      else if 0xF0 \<le> b \<and> b \<le> 0xF4 then
        (d\<lparr>code_point := unat (b AND 0x7), bytes_needed := 3,
           lower_boundary := (if b = 0xF0 then 0x90 else lower_boundary d),
           upper_boundary := (if b = 0xF4 then 0x8F else upper_boundary d)\<rparr>, [])
      else (d, [0xFFFD]))"

text \<open>
  The handler for any byte: the code points it emits (U+FFFD for an error).  A byte that
  cannot continue the character in progress ends it with an error and is then handled
  again as a first byte.
\<close>

definition utf8_handler :: "TextDecoder \<Rightarrow> byte \<Rightarrow> TextDecoder \<times> nat list" where
  "utf8_handler d b =
     (if bytes_needed d = 0 then utf8_lead d b
      else if \<not> (lower_boundary d \<le> b \<and> b \<le> upper_boundary d) then
        (let (d', out) = utf8_lead (utf8_reset d) b in (d', 0xFFFD # out))
      else
        (let d1 = d\<lparr>code_point := code_point d * 64 + unat (b AND 0x3F),
                     bytes_seen := bytes_seen d + 1,
                     lower_boundary := 0x80, upper_boundary := 0xBF\<rparr>
         in if bytes_seen d1 \<noteq> bytes_needed d1 then (d1, [])
            else (utf8_reset d1, [code_point d1])))"

text \<open>A code point as UTF-16 code units.\<close>

definition utf16 :: "nat \<Rightarrow> jstr" where
  "utf16 cp =
     (if cp < 0x10000 then [of_nat cp]
      else [of_nat (0xD800 + (cp - 0x10000) div 0x400),
            of_nat (0xDC00 + (cp - 0x10000) mod 0x400)])"

text \<open>Serialising the output: the first code point of the stream is dropped when it is a BOM.\<close>

fun serialize :: "TextDecoder \<Rightarrow> nat list \<Rightarrow> TextDecoder \<times> jstr" where
  "serialize d [] = (d, [])"
| "serialize d (cp # cps) =
     (if bom_seen d then
        (let (d', s) = serialize d cps in (d', utf16 cp @ s))
      else
        (let (d', s) = serialize (d\<lparr>bom_seen := True\<rparr>) cps
         in (d', (if cp = 0xFEFF then [] else utf16 cp) @ s)))"

text \<open>\<open>decoder.decode(value, { stream: true })\<close>: the new state and the text decoded.\<close>

fun decode :: "TextDecoder \<Rightarrow> byte list \<Rightarrow> TextDecoder \<times> jstr" where
  "decode d [] = (d, [])"
| "decode d (b # bs) =
     (let (d1, cps) = utf8_handler d b;
          (d2, s) = serialize d1 cps;
          (d3, t) = decode d2 bs
      in (d3, s @ t))"

section \<open>JSON values\<close>

text \<open>
  A value produced by \<open>JSON.parse\<close>.  An object keeps its members in the order of the text;
  when a key occurs twice the later member is the property.  A number carries the exact
  value of its literal: the program never computes with a number, it only tests one for
  truth, and the double nearest to the literal is zero exactly when the literal's
  magnitude is at most \<open>2 ^ -1075\<close>.  \<open>undefined\<close> is not a JSON value: an expression that
  may be \<open>undefined\<close> has type \<open>json option\<close>, with \<open>None\<close> for it.
\<close>

datatype json =
    JNull
  | JBool bool
  | JNum rat
  | JStr jstr
  | JArr "json list"
  | JObj "(jstr \<times> json) list"

text \<open>ToBoolean, as \<open>||\<close>, \<open>!\<close> and \<open>if\<close> apply it.\<close>

fun truthy :: "json \<Rightarrow> bool" where
  "truthy JNull = False"
| "truthy (JBool b) = b"
| "truthy (JNum q) = (1 < \<bar>q\<bar> * 2 ^ 1075)"
| "truthy (JStr s) = (s \<noteq> [])"
| "truthy (JArr xs) = True"
| "truthy (JObj kvs) = True"

text \<open>
  \<open>v?.k\<close> for a property name \<open>k\<close> that is neither an index nor a member of a built-in
  prototype (every name the program reads, \<open>choices\<close>, \<open>delta\<close>, \<open>content\<close>, \<open>text\<close>, ..., is
  such a name): only an object has it.
\<close>

fun get_prop :: "json option \<Rightarrow> jstr \<Rightarrow> json option" where
  "get_prop (Some (JObj kvs)) k = map_of (rev kvs) k"
| "get_prop _ k = None"

text \<open>
  \<open>v?.[0]\<close>: the first element of an array, the first code unit of a string, the
  property \<open>"0"\<close> of an object.
\<close>

fun at0 :: "json option \<Rightarrow> json option" where
  "at0 (Some (JArr xs)) = (case xs of [] \<Rightarrow> None | x # _ \<Rightarrow> Some x)"
| "at0 (Some (JStr s)) = (case s of [] \<Rightarrow> None | c # _ \<Rightarrow> Some (JStr [c]))"
| "at0 (Some (JObj kvs)) = map_of (rev kvs) (ascii ''0'')"
| "at0 _ = None"

text \<open>\<open>a || b\<close> where \<open>b\<close> is a JSON value, and \<open>a || b\<close> where \<open>b\<close> may be undefined.\<close>

definition or_else :: "json option \<Rightarrow> json \<Rightarrow> json" where
  "or_else a b = (case a of None \<Rightarrow> b | Some v \<Rightarrow> if truthy v then v else b)"

definition or_undef :: "json option \<Rightarrow> json option \<Rightarrow> json option" where
  "or_undef a b = (case a of None \<Rightarrow> b | Some v \<Rightarrow> if truthy v then Some v else b)"

section \<open>JSON.parse\<close>

text \<open>
  The JSON grammar of ECMA-404, as \<open>JSON.parse\<close> reads it: \<open>None\<close> is the SyntaxError.
  Nested values are read with fuel, one unit for a call.  \<open>JSON_parse\<close> starts with more
  than twice as much fuel as the text has code units; every such amount gives the same
  result (\<open>parse_fuel\<close>, \<open>JSON_parse_fuel\<close>), so the fuel is never used up.
\<close>

definition is_json_ws :: "16 word \<Rightarrow> bool" where
  "is_json_ws c = (c = 0x20 \<or> c = 0x9 \<or> c = 0xA \<or> c = 0xD)"

definition skip_ws :: "jstr \<Rightarrow> jstr" where
  "skip_ws s = dropWhile is_json_ws s"

definition is_digit :: "16 word \<Rightarrow> bool" where
  "is_digit c = (0x30 \<le> c \<and> c \<le> 0x39)"

definition digits_val :: "jstr \<Rightarrow> nat" where
  "digits_val ds = foldl (\<lambda>a c. a * 10 + (unat c - 48)) 0 ds"

definition hex_val :: "16 word \<Rightarrow> nat option" where
  "hex_val c =
     (if 0x30 \<le> c \<and> c \<le> 0x39 then Some (unat c - 0x30)
      else if 0x41 \<le> c \<and> c \<le> 0x46 then Some (unat c - 0x41 + 10)
      else if 0x61 \<le> c \<and> c \<le> 0x66 then Some (unat c - 0x61 + 10)
      else None)"

definition escape_char :: "16 word \<Rightarrow> 16 word option" where
  "escape_char c =
     (if c = 0x22 \<or> c = 0x5C \<or> c = 0x2F then Some c
      else if c = 0x62 then Some 0x8
      else if c = 0x66 then Some 0xC
      else if c = 0x6E then Some 0xA
      else if c = 0x72 then Some 0xD
      else if c = 0x74 then Some 0x9
      else None)"

datatype smode = SNormal | SEscape | SHex nat nat

text \<open>
  The characters of a string after its opening quote: the string and the text after the
  closing quote.  \<open>SHex n v\<close> is inside a \<open>\u\<close> escape with \<open>n\<close> digits to come.
\<close>

fun scan_string :: "smode \<Rightarrow> jstr \<Rightarrow> jstr \<Rightarrow> (jstr \<times> jstr) option" where
  "scan_string m acc [] = None"
| "scan_string SNormal acc (c # cs) =
     (if c = 0x22 then Some (rev acc, cs)
      else if c = 0x5C then scan_string SEscape acc cs
      else if c < 0x20 then None
      else scan_string SNormal (c # acc) cs)"
| "scan_string SEscape acc (c # cs) =
     (if c = 0x75 then scan_string (SHex 4 0) acc cs
      else (case escape_char c of
              None \<Rightarrow> None
            | Some x \<Rightarrow> scan_string SNormal (x # acc) cs))"
| "scan_string (SHex n v) acc (c # cs) =
     (case hex_val c of
        None \<Rightarrow> None
      | Some h \<Rightarrow>
          if n \<le> 1 then scan_string SNormal (of_nat (v * 16 + h) # acc) cs
          else scan_string (SHex (n - 1) (v * 16 + h)) acc cs)"

text \<open>
  A number: \<open>-? (0 | [1-9][0-9]*) (. [0-9]+)? ([eE] [+-]? [0-9]+)?\<close>, its value and the
  text after it.
\<close>

definition parse_exponent :: "jstr \<Rightarrow> (int \<times> jstr) option" where
  "parse_exponent s =
     (case s of
        [] \<Rightarrow> Some (0, s)
      | c # r \<Rightarrow>
          if c = 0x65 \<or> c = 0x45 then
            (let (neg, r1) =
                   (case r of
                      [] \<Rightarrow> (False, r)
                    | g # r' \<Rightarrow> if g = 0x2D then (True, r') else if g = 0x2B then (False, r')
                               else (False, r));
                 es = takeWhile is_digit r1
             in if es = [] then None
                else Some ((if neg then - int (digits_val es) else int (digits_val es)),
                           dropWhile is_digit r1))
          else Some (0, s))"

definition parse_fraction :: "jstr \<Rightarrow> (rat \<times> jstr) option" where
  "parse_fraction s =
     (case s of
        [] \<Rightarrow> Some (0, s)
      | c # r \<Rightarrow>
          if c = 0x2E then
            (let fs = takeWhile is_digit r
             in if fs = [] then None
                else Some (of_nat (digits_val fs) / 10 ^ length fs, dropWhile is_digit r))
          else Some (0, s))"

definition parse_number :: "jstr \<Rightarrow> (rat \<times> jstr) option" where
  "parse_number s =
     (let (neg, s1) = (case s of [] \<Rightarrow> (False, s)
                       | c # r \<Rightarrow> if c = 0x2D then (True, r) else (False, s));
          ds = (case s1 of [] \<Rightarrow> []
                | c # r \<Rightarrow> if c = 0x30 then [c] else takeWhile is_digit s1);
          s2 = drop (length ds) s1
      in if ds = [] then None
         else (case parse_fraction s2 of
                 None \<Rightarrow> None
               | Some (f, s3) \<Rightarrow>
                   (case parse_exponent s3 of
                      None \<Rightarrow> None
                    | Some (e, s4) \<Rightarrow>
                        (let m = of_nat (digits_val ds) + f;
                             v = (if 0 \<le> e then m * 10 ^ nat e else m / 10 ^ nat (- e))
                         in Some ((if neg then - v else v), s4)))))"

fun parse_value :: "nat \<Rightarrow> jstr \<Rightarrow> (json \<times> jstr) option"
  and parse_elements :: "nat \<Rightarrow> json list \<Rightarrow> jstr \<Rightarrow> (json list \<times> jstr) option"
  and parse_members ::
    "nat \<Rightarrow> (jstr \<times> json) list \<Rightarrow> jstr \<Rightarrow> ((jstr \<times> json) list \<times> jstr) option"
where
  "parse_value 0 s = None"
| "parse_value (Suc n) s =
     (case s of
        [] \<Rightarrow> None
      | c # cs \<Rightarrow>
          if c = 0x7B then
            (case skip_ws cs of
               [] \<Rightarrow> None
             | d # ds \<Rightarrow>
                 if d = 0x7D then Some (JObj [], ds)
                 else (case parse_members n [] (d # ds) of
                         None \<Rightarrow> None
                       | Some (kvs, r) \<Rightarrow> Some (JObj kvs, r)))
          else if c = 0x5B then
            (case skip_ws cs of
               [] \<Rightarrow> None
             | d # ds \<Rightarrow>
                 if d = 0x5D then Some (JArr [], ds)
                 else (case parse_elements n [] (d # ds) of
                         None \<Rightarrow> None
                       | Some (vs, r) \<Rightarrow> Some (JArr vs, r)))
          else if c = 0x22 then
            (case scan_string SNormal [] cs of
               None \<Rightarrow> None
             | Some (str, r) \<Rightarrow> Some (JStr str, r))
          else if startsWith s (ascii ''true'') then Some (JBool True, drop 4 s)
          else if startsWith s (ascii ''false'') then Some (JBool False, drop 5 s)
          else if startsWith s (ascii ''null'') then Some (JNull, drop 4 s)
          else (case parse_number s of
                  None \<Rightarrow> None
                | Some (q, r) \<Rightarrow> Some (JNum q, r)))"
| "parse_elements 0 acc s = None"
| "parse_elements (Suc n) acc s =
     (case parse_value n s of
        None \<Rightarrow> None
      | Some (v, r) \<Rightarrow>
          (case skip_ws r of
             [] \<Rightarrow> None
           | c # cs \<Rightarrow>
               if c = 0x2C then parse_elements n (v # acc) (skip_ws cs)
               else if c = 0x5D then Some (rev (v # acc), cs)
               else None))"
| "parse_members 0 acc s = None"
| "parse_members (Suc n) acc s =
     (case s of
        [] \<Rightarrow> None
      | q # qs \<Rightarrow>
          if q \<noteq> 0x22 then None
          else (case scan_string SNormal [] qs of
                  None \<Rightarrow> None
                | Some (k, r) \<Rightarrow>
                    (case skip_ws r of
                       [] \<Rightarrow> None
                     | c # cs \<Rightarrow>
                         if c \<noteq> 0x3A then None
                         else (case parse_value n (skip_ws cs) of
                                 None \<Rightarrow> None
                               | Some (v, r1) \<Rightarrow>
                                   (case skip_ws r1 of
                                      [] \<Rightarrow> None
                                    | e # es \<Rightarrow>
                                        if e = 0x2C then
                                          parse_members n ((k, v) # acc) (skip_ws es)
                                        else if e = 0x7D then Some (rev ((k, v) # acc), es)
                                        else None)))))"

definition JSON_parse :: "jstr \<Rightarrow> json option" where
  "JSON_parse s =
     (case parse_value (Suc (length s + length s)) (skip_ws s) of
        None \<Rightarrow> None
      | Some (v, r) \<Rightarrow> if skip_ws r = [] then Some v else None)"

section \<open>Provider adapters\<close>

text \<open>
  The stored configuration (\<open>AIConfig\<close>).  \<open>apiKeys\<close> and \<open>baseUrls\<close> are objects keyed by
  provider name; an optional field that is absent is \<open>None\<close>.
\<close>

record AIConfig =
  provider :: jstr
  apiKeys :: "(jstr \<times> jstr) list"
  model :: jstr
  baseUrl :: "jstr option"
  baseUrls :: "(jstr \<times> jstr) list"
  customModel :: "jstr option"
  replyLanguage :: "jstr option"

record APIRequestConfig =
  url :: jstr
  headers :: "(jstr \<times> jstr) list"
  body :: json

text \<open>
  \<open>StreamChunk\<close>: declared \<open>string | null\<close>, but the fields hold whatever truthy value the
  payload has at the path read, and \<open>null\<close> otherwise.
\<close>

record StreamChunk =
  content :: json
  reasoning :: json

datatype ProviderConfig = OpenAIProvider | GeminiProvider | ClaudeProvider

text \<open>\<open>a || b\<close> on an optional string and a string: the empty string is falsy.\<close>

definition str_or :: "jstr option \<Rightarrow> jstr \<Rightarrow> jstr" where
  "str_or a b = (case a of None \<Rightarrow> b | Some s \<Rightarrow> if s = [] then b else s)"

fun getDefaultBaseUrl :: "ProviderConfig \<Rightarrow> jstr" where
  "getDefaultBaseUrl OpenAIProvider = ascii ''https://api.openai.com/v1''"
| "getDefaultBaseUrl GeminiProvider = ascii ''https://generativelanguage.googleapis.com/v1beta''"
| "getDefaultBaseUrl ClaudeProvider = ascii ''https://api.anthropic.com/v1''"

definition message :: "string \<Rightarrow> jstr \<Rightarrow> json" where
  "message role text =
     JObj [(ascii ''role'', JStr (ascii role)), (ascii ''content'', JStr text)]"

text \<open>Gemini: \<open>model.startsWith("models/") ? model : `models/${model}`\<close>.\<close>

definition fullModelName :: "jstr \<Rightarrow> jstr" where
  "fullModelName m =
     (if startsWith m (ascii ''models/'') then m else ascii ''models/'' @ m)"

text \<open>Gemini: \<open>systemPrompt ? `${systemPrompt}\n\n${userPrompt}` : userPrompt\<close>.\<close>

definition combinedPrompt :: "jstr \<Rightarrow> jstr \<Rightarrow> jstr" where
  "combinedPrompt systemPrompt userPrompt =
     (if systemPrompt \<noteq> [] then systemPrompt @ [0xA, 0xA] @ userPrompt else userPrompt)"

fun buildRequestConfig ::
  "ProviderConfig \<Rightarrow> AIConfig \<Rightarrow> jstr \<Rightarrow> jstr \<Rightarrow> jstr \<Rightarrow> jstr \<Rightarrow> bool \<Rightarrow> APIRequestConfig"
where
  "buildRequestConfig OpenAIProvider config systemPrompt userPrompt m apiKey stream =
     (let base = str_or (baseUrl config) (getDefaultBaseUrl OpenAIProvider);
          messages = (if systemPrompt \<noteq> [] then [message ''system'' systemPrompt] else [])
                     @ [message ''user'' userPrompt]
      in \<lparr>url = base @ ascii ''/chat/completions'',
          headers = [(ascii ''Content-Type'', ascii ''application/json''),
                     (ascii ''Authorization'', ascii ''Bearer '' @ apiKey)],
          body = JObj [(ascii ''model'', JStr m),
                       (ascii ''messages'', JArr messages),
                       (ascii ''temperature'', JNum (3 / 10)),
                       (ascii ''stream'', JBool stream)]\<rparr>)"
| "buildRequestConfig GeminiProvider config systemPrompt userPrompt m apiKey stream =
     (let base = str_or (baseUrl config) (getDefaultBaseUrl GeminiProvider);
          action = (if stream then ascii ''streamGenerateContent'' else ascii ''generateContent'');
          queryParams = (if stream then ascii ''key='' @ apiKey @ ascii ''&alt=sse''
                         else ascii ''key='' @ apiKey)
      in \<lparr>url = base @ ascii ''/'' @ fullModelName m @ ascii '':'' @ action
                 @ ascii ''?'' @ queryParams,
          headers = [(ascii ''Content-Type'', ascii ''application/json'')],
          body = JObj [(ascii ''contents'',
                        JArr [JObj [(ascii ''parts'',
                          JArr [JObj [(ascii ''text'',
                            JStr (combinedPrompt systemPrompt userPrompt))]])]]),
                       (ascii ''generationConfig'',
                        JObj [(ascii ''temperature'', JNum (3 / 10)),
                              (ascii ''responseMimeType'',
                               JStr (ascii ''application/json''))])]\<rparr>)"
| "buildRequestConfig ClaudeProvider config systemPrompt userPrompt m apiKey stream =
     (let base = str_or (baseUrl config) (getDefaultBaseUrl ClaudeProvider)
      in \<lparr>url = base @ ascii ''/messages'',
          headers = [(ascii ''Content-Type'', ascii ''application/json''),
                     (ascii ''x-api-key'', apiKey),
                     (ascii ''anthropic-version'', ascii ''2023-06-01'')],
          body = JObj [(ascii ''model'', JStr m),
                       (ascii ''system'', JStr systemPrompt),
                       (ascii ''messages'', JArr [message ''user'' userPrompt]),
                       (ascii ''stream'', JBool stream)]\<rparr>)"

text \<open>
  The value read from a payload before \<open>|| null\<close> is applied: \<open>None\<close> is \<open>undefined\<close>.
  OpenAI reads \<open>choices[0].delta\<close>, Gemini \<open>candidates[0].content.parts[0].text\<close>, Claude
  \<open>delta.text\<close> of a \<open>content_block_delta\<close> event, all with optional chaining.
\<close>

definition openai_delta :: "json \<Rightarrow> json option" where
  "openai_delta chunk = get_prop (at0 (get_prop (Some chunk) (ascii ''choices''))) (ascii ''delta'')"

fun raw_content :: "ProviderConfig \<Rightarrow> json \<Rightarrow> json option" where
  "raw_content OpenAIProvider chunk = get_prop (openai_delta chunk) (ascii ''content'')"
| "raw_content GeminiProvider chunk =
     get_prop (at0 (get_prop (get_prop (at0 (get_prop (Some chunk) (ascii ''candidates'')))
       (ascii ''content'')) (ascii ''parts''))) (ascii ''text'')"
| "raw_content ClaudeProvider chunk =
     (if get_prop (Some chunk) (ascii ''type'') = Some (JStr (ascii ''content_block_delta''))
      then get_prop (get_prop (Some chunk) (ascii ''delta'')) (ascii ''text'')
      else None)"

fun raw_reasoning :: "ProviderConfig \<Rightarrow> json \<Rightarrow> json option" where
  "raw_reasoning OpenAIProvider chunk =
     or_undef (get_prop (openai_delta chunk) (ascii ''reasoning_content''))
              (get_prop (openai_delta chunk) (ascii ''reasoning''))"
| "raw_reasoning GeminiProvider chunk = None"
| "raw_reasoning ClaudeProvider chunk = None"

definition parseStreamChunk :: "ProviderConfig \<Rightarrow> json \<Rightarrow> StreamChunk" where
  "parseStreamChunk p chunk =
     \<lparr>content = or_else (raw_content p chunk) JNull,
      reasoning = or_else (raw_reasoning p chunk) JNull\<rparr>"

text \<open>
  The registry \<open>BackgroundAIService.providers\<close>.  It and \<open>apiKeys\<close> are plain objects: a
  name that is not an own property is looked up in \<open>Object.prototype\<close>, where it finds a
  truthy value that is neither a key nor an adapter.
\<close>

definition providers :: "(jstr \<times> ProviderConfig) list" where
  "providers =
     [(ascii ''openai'', OpenAIProvider),
      (ascii ''openai-compatible'', OpenAIProvider),
      (ascii ''gemini'', GeminiProvider),
      (ascii ''claude'', ClaudeProvider),
      (ascii ''openrouter'', OpenAIProvider)]"

definition Object_prototype :: "jstr list" where
  "Object_prototype =
     map ascii [''constructor'', ''__defineGetter__'', ''__defineSetter__'',
       ''hasOwnProperty'', ''__lookupGetter__'', ''__lookupSetter__'', ''isPrototypeOf'',
       ''propertyIsEnumerable'', ''toString'', ''valueOf'', ''__proto__'',
       ''toLocaleString'']"

datatype 'a member = Own 'a | Inherited | Absent

definition lookup_member :: "(jstr \<times> 'a) list \<Rightarrow> jstr \<Rightarrow> 'a member" where
  "lookup_member obj k =
     (case map_of (rev obj) k of
        Some v \<Rightarrow> Own v
      | None \<Rightarrow> if k \<in> set Object_prototype then Inherited else Absent)"

section \<open>streamAI\<close>

text \<open>
  What a run of \<open>streamAI\<close> does, in order: the request it sends, the texts it hands to
  \<open>JSON.parse\<close>, what it logs, and the callbacks it calls.  The callbacks do not throw
  (the port's callbacks post through \<open>safePostMessage\<close>).
\<close>

datatype effect =
    Fetch APIRequestConfig
  | ParseJSON jstr
  | ConsoleWarn
  | ConsoleError
  | OnChunk StreamChunk
  | OnDone
  | OnError jstr

text \<open>One complete line of the response (the body of the \<open>for\<close> loop).\<close>

definition process_line :: "ProviderConfig \<Rightarrow> jstr \<Rightarrow> effect list" where
  "process_line p line =
     (let trimmedLine = trim line
      in if trimmedLine = [] then []
         else if startsWith trimmedLine (ascii ''data: '') then
           (let dataStr = drop 6 trimmedLine
            in if dataStr = ascii ''[DONE]'' then []
               else ParseJSON dataStr #
                 (case JSON_parse dataStr of
                    None \<Rightarrow> [ConsoleWarn]
                  | Some data \<Rightarrow>
                      (let chunkData = parseStreamChunk p data
                       in if truthy (content chunkData) \<or> truthy (reasoning chunkData)
                          then [OnChunk chunkData] else [])))
         else [])"

text \<open>
  One successful \<open>reader.read()\<close>: the chunk is decoded and appended to the buffer, the
  buffer is split, the last fragment becomes the buffer and the lines before it are
  processed.
\<close>

definition read_step ::
  "ProviderConfig \<Rightarrow> TextDecoder \<times> jstr \<Rightarrow> byte list \<Rightarrow> (TextDecoder \<times> jstr) \<times> effect list"
where
  "read_step p st val =
     (let (decoder, buffer) = st;
          (decoder', chunk) = decode decoder val;
          buffer1 = buffer @ chunk;
          lines = split_nl buffer1;
          buffer2 = (if lines = [] then [] else last lines)
      in ((decoder', buffer2), concat (map (process_line p) (butlast lines))))"

text \<open>The \<open>while (true)\<close> loop over the chunks the reader yields before it is done.\<close>

fun read_loop :: "ProviderConfig \<Rightarrow> TextDecoder \<times> jstr \<Rightarrow> byte list list \<Rightarrow> effect list" where
  "read_loop p st [] = []"
| "read_loop p st (val # vals) =
     (let (st', effs) = read_step p st val in effs @ read_loop p st' vals)"

text \<open>The deltas a run hands to \<open>onChunk\<close>, in order.\<close>

fun deltas :: "effect list \<Rightarrow> StreamChunk list" where
  "deltas [] = []"
| "deltas (OnChunk c # es) = c # deltas es"
| "deltas (e # es) = deltas es"

text \<open>What the loop emits for a text: the lines before the last fragment, each processed.\<close>

definition emitted :: "ProviderConfig \<Rightarrow> jstr \<Rightarrow> effect list" where
  "emitted p text = concat (map (process_line p) (butlast (split_nl text)))"

text \<open>
  The world of one run: what storage holds under \<open>aiConfig\<close> (\<open>getConfig\<close> turns a
  failure of the storage into \<open>null\<close>) and how \<open>fetch\<close> answers a request.  A response
  body is the chunks its reader yields, followed by the end of the stream (\<open>None\<close>) or by
  a rejected \<open>read()\<close> with a message; a response may have no body.  \<open>resp_text\<close> is what
  \<open>response.text()\<close> settles to (\<open>Inl\<close>: rejected).
\<close>

record Response =
  resp_ok :: bool
  resp_status :: nat
  resp_statusText :: jstr
  resp_text :: "jstr + jstr"
  resp_body :: "(byte list list \<times> jstr option) option"

datatype fetch_result = Rejects jstr | Resolves Response

record world =
  stored_config :: "AIConfig option"
  fetch :: "APIRequestConfig \<Rightarrow> fetch_result"

text \<open>\<open>String(n)\<close> for a status code.\<close>

function show_nat :: "nat \<Rightarrow> jstr" where
  "show_nat n =
     (if n < 10 then [of_nat (48 + n)]
      else show_nat (n div 10) @ [of_nat (48 + n mod 10)])"
  by pat_completeness auto
termination
  by (relation "measure id") auto

declare show_nat.simps [simp del]

text \<open>The messages of the errors thrown in \<open>streamAI\<close>.\<close>

definition not_configured :: jstr where
  "not_configured = ascii ''AI'' @ [0x529F, 0x80FD, 0x672A, 0x914D, 0x7F6E]"

definition unsupported_provider :: "jstr \<Rightarrow> jstr" where
  "unsupported_provider name =
     [0x4E0D, 0x652F, 0x6301, 0x7684] @ ascii ''AI'' @ [0x670D, 0x52A1, 0x5546]
     @ ascii '': '' @ name"

definition not_a_function :: jstr where
  "not_a_function = ascii ''provider.buildRequestConfig is not a function''"

definition request_failed :: "jstr \<Rightarrow> nat \<Rightarrow> jstr \<Rightarrow> jstr \<Rightarrow> jstr" where
  "request_failed name st stText t =
     name @ ascii '' API'' @ [0x8BF7, 0x6C42, 0x5931, 0x8D25] @ ascii '': ''
     @ show_nat st @ ascii '' '' @ stText @ ascii '' - '' @ t"

definition no_stream :: jstr where
  "no_stream = [0x65E0, 0x6CD5, 0x83B7, 0x53D6, 0x54CD, 0x5E94, 0x6D41]"

text \<open>The \<open>catch\<close> block of \<open>streamAI\<close>.\<close>

definition failure :: "jstr \<Rightarrow> effect list" where
  "failure m = [ConsoleError, OnError m]"

text \<open>After \<open>fetch\<close> has settled.\<close>

definition on_response :: "ProviderConfig \<Rightarrow> AIConfig \<Rightarrow> fetch_result \<Rightarrow> effect list" where
  "on_response p config res =
     (case res of
        Rejects m \<Rightarrow> failure m
      | Resolves r \<Rightarrow>
          if \<not> resp_ok r then
            (case resp_text r of
               Inl m \<Rightarrow> failure m
             | Inr t \<Rightarrow>
                 failure (request_failed (provider config) (resp_status r)
                            (resp_statusText r) t))
          else
            (case resp_body r of
               None \<Rightarrow> failure no_stream
             | Some (vals, ending) \<Rightarrow>
                 read_loop p (new_TextDecoder, []) vals
                 @ (case ending of None \<Rightarrow> [OnDone] | Some m \<Rightarrow> failure m)))"

text \<open>
  \<open>streamAI\<close> up to the call of \<open>fetch\<close>: the message of the error thrown, or the adapter,
  the configuration and the request.  A key that is inherited from \<open>Object.prototype\<close> is
  truthy; the registry then inherits the same name and has no adapter under it, so the
  call of \<open>provider.buildRequestConfig\<close> throws a TypeError.
\<close>

definition prepare ::
  "AIConfig option \<Rightarrow> jstr \<Rightarrow> jstr \<Rightarrow> jstr + ProviderConfig \<times> AIConfig \<times> APIRequestConfig"
where
  "prepare stored systemPrompt userPrompt =
     (case stored of
        None \<Rightarrow> Inl not_configured
      | Some config \<Rightarrow>
          (case lookup_member (apiKeys config) (provider config) of
             Absent \<Rightarrow> Inl not_configured
           | Inherited \<Rightarrow> Inl not_a_function
           | Own apiKey \<Rightarrow>
               if apiKey = [] then Inl not_configured
               else
                 (case lookup_member providers (provider config) of
                    Absent \<Rightarrow> Inl (unsupported_provider (provider config))
                  | Inherited \<Rightarrow> Inl not_a_function
                  | Own p \<Rightarrow>
                      Inr (p, config,
                           buildRequestConfig p config systemPrompt userPrompt
                             (str_or (customModel config) (model config)) apiKey True))))"

definition streamAI :: "world \<Rightarrow> jstr \<Rightarrow> jstr \<Rightarrow> effect list" where
  "streamAI w systemPrompt userPrompt =
     (case prepare (stored_config w) systemPrompt userPrompt of
        Inl m \<Rightarrow> failure m
      | Inr (p, config, requestConfig) \<Rightarrow>
          Fetch requestConfig # on_response p config (fetch w requestConfig))"

section \<open>The port\<close>

text \<open>The messages the background script posts to the session over the port.\<close>

datatype port_message = Chunk json json | Done | Error jstr

text \<open>
  The callbacks the port's listener passes to \<open>streamAI\<close>: \<open>onChunk\<close> and \<open>onDone\<close> post,
  \<open>onError\<close> posts unless the signal of its generation is aborted.
\<close>

fun callback :: "bool \<Rightarrow> effect \<Rightarrow> port_message list" where
  "callback aborted (OnChunk c) = [Chunk (content c) (reasoning c)]"
| "callback aborted OnDone = [Done]"
| "callback aborted (OnError m) = (if aborted then [] else [Error m])"
| "callback aborted e = []"

text \<open>What the session observes of a run during which the signal is not aborted.\<close>

definition observed :: "effect list \<Rightarrow> port_message list" where
  "observed effs = concat (map (callback False) effs)"

section \<open>formatSubtitlesForAI\<close>

datatype exn = Exception jstr | TypeError

definition subtitles_empty :: jstr where
  "subtitles_empty =
     [0x5B57, 0x5E55, 0x6570, 0x636E, 0x4E3A, 0x7A7A, 0x6216, 0x683C, 0x5F0F, 0x4E0D,
      0x6B63, 0x786E]"

text \<open>
  The callback of \<open>map\<close>: \<open>subtitle.text || subtitle.content || subtitle.transcript || ""\<close>,
  trimmed.  Reading a property of \<open>null\<close> throws, and so does \<open>trim\<close> on a truthy value
  that is not a string.
\<close>

definition subtitle_text :: "json \<Rightarrow> exn + jstr" where
  "subtitle_text subtitle =
     (if subtitle = JNull then Inl TypeError
      else
        (case or_else (or_undef (get_prop (Some subtitle) (ascii ''text''))
                        (or_undef (get_prop (Some subtitle) (ascii ''content''))
                                  (get_prop (Some subtitle) (ascii ''transcript''))))
                (JStr []) of
           JStr s \<Rightarrow> Inr (trim s)
         | _ \<Rightarrow> Inl TypeError))"

fun map_subtitle_text :: "json list \<Rightarrow> exn + jstr list" where
  "map_subtitle_text [] = Inr []"
| "map_subtitle_text (x # xs) =
     (case subtitle_text x of
        Inl e \<Rightarrow> Inl e
      | Inr t \<Rightarrow> (case map_subtitle_text xs of Inl e \<Rightarrow> Inl e | Inr ts \<Rightarrow> Inr (t # ts)))"

text \<open>
  The second \<open>filter\<close>: an element stays when it is the first or differs from the element
  before it in the array filtered.
\<close>

fun drop_repeats :: "jstr \<Rightarrow> jstr list \<Rightarrow> jstr list" where
  "drop_repeats prev [] = []"
| "drop_repeats prev (x # xs) = (if x \<noteq> prev then [x] else []) @ drop_repeats x xs"

definition dedupe :: "jstr list \<Rightarrow> jstr list" where
  "dedupe xs = (case xs of [] \<Rightarrow> [] | x # rest \<Rightarrow> x # drop_repeats x rest)"

text \<open>The callback of \<open>reduce\<close>.\<close>

definition merge_short :: "jstr list \<Rightarrow> jstr \<Rightarrow> jstr list" where
  "merge_short acc current =
     (if acc = [] then [current]
      else if length current < 20 \<and> length (last acc) < 50
        then butlast acc @ [last acc @ [0x20] @ current]
      else acc @ [current])"

fun join_space :: "jstr list \<Rightarrow> jstr" where
  "join_space [] = []"
| "join_space [x] = x"
| "join_space (x # xs) = x @ [0x20] @ join_space xs"

text \<open>\<open>replace(/\s+/g, " ")\<close>; the flag says that the run of whitespace has begun.\<close>

fun collapse_ws :: "bool \<Rightarrow> jstr \<Rightarrow> jstr" where
  "collapse_ws in_run [] = []"
| "collapse_ws in_run (c # cs) =
     (if is_ws c then (if in_run then collapse_ws True cs else 0x20 # collapse_ws True cs)
      else c # collapse_ws False cs)"

definition lastIndexOf :: "jstr \<Rightarrow> 16 word \<Rightarrow> int" where
  "lastIndexOf s c =
     (if c \<in> set s then int (length s) - 1 - int (length (takeWhile (\<lambda>x. x \<noteq> c) (rev s)))
      else - 1)"

text \<open>The text after the pipeline of \<open>map\<close>, \<open>filter\<close>, \<open>reduce\<close>, \<open>join\<close>, \<open>replace\<close>, \<open>trim\<close>.\<close>

definition formattedText :: "jstr list \<Rightarrow> jstr" where
  "formattedText texts =
     trim (collapse_ws False (join_space (foldl merge_short []
       (dedupe (filter (\<lambda>t. length t > 0) texts)))))"

definition limit_length :: "jstr \<Rightarrow> jstr" where
  "limit_length ft =
     (if length ft \<le> 8000 then ft
      else
        (let truncated = take 8000 ft;
             lastPeriod = lastIndexOf truncated 0x3002;
             lastSpace = lastIndexOf truncated 0x20;
             cutPoint = (if lastPeriod > 7000 then lastPeriod + 1
                         else if lastSpace > 7000 then lastSpace else 8000)
         in trim (take (nat cutPoint) ft)))"

text \<open>
  \<open>formatSubtitlesForAI\<close>.  The argument is \<open>request.subtitles\<close> of a message, a JSON
  value, or \<open>None\<close> when the message has no such field (\<open>undefined\<close>).
\<close>

definition formatSubtitlesForAI :: "json option \<Rightarrow> exn + jstr" where
  "formatSubtitlesForAI subtitles =
     (case subtitles of
        Some (JArr xs) \<Rightarrow>
          if xs = [] then Inl (Exception subtitles_empty)
          else (case map_subtitle_text xs of
                  Inl e \<Rightarrow> Inl e
                | Inr texts \<Rightarrow> Inr (limit_length (formattedText texts)))
      | _ \<Rightarrow> Inl (Exception subtitles_empty))"

section \<open>Vocabulary of the properties\<close>

text \<open>A delta field before normalisation that is absent (\<open>undefined\<close>, \<open>null\<close>) or the empty string.\<close>

definition absent_or_empty :: "json option \<Rightarrow> bool" where
  "absent_or_empty v = (v = None \<or> v = Some JNull \<or> v = Some (JStr []))"

text \<open>The bytes of an ASCII text.\<close>

definition bytes :: "string \<Rightarrow> byte list" where
  "bytes s = map of_char s"

text \<open>The configuration and the upstream byte stream of the end-to-end scenario.\<close>

definition scenario_config :: AIConfig where
  "scenario_config =
     \<lparr>provider = ascii ''openai'', apiKeys = [(ascii ''openai'', ascii ''k'')],
      model = ascii ''gpt-x'', baseUrl = None, baseUrls = [], customModel = None,
      replyLanguage = None\<rparr>"

definition scenario_stream :: "byte list" where
  \<open>scenario_stream =
     bytes ''data: {"choices":[{"delta":{"content":"Hel"}}]}'' @ [0xA, 0xA]
     @ bytes ''data: {"choices":[{"delta":{"content":"lo"}}]}'' @ [0xA, 0xA]
     @ bytes ''data: [DONE]'' @ [0xA, 0xA]\<close>

text \<open>
  An element of the subtitle array that makes \<open>formatSubtitlesForAI\<close> throw a TypeError:
  \<open>null\<close>, or an element whose first truthy field among \<open>text\<close>, \<open>content\<close> and
  \<open>transcript\<close> is not a string.
\<close>

fun first_truthy :: "json option list \<Rightarrow> json option" where
  "first_truthy [] = None"
| "first_truthy (None # vs) = first_truthy vs"
| "first_truthy (Some v # vs) = (if truthy v then Some v else first_truthy vs)"

fun is_string :: "json \<Rightarrow> bool" where
  "is_string (JStr s) = True"
| "is_string _ = False"

definition malformed :: "json \<Rightarrow> bool" where
  "malformed x =
     (x = JNull \<or>
      (case first_truthy [get_prop (Some x) (ascii ''text''),
                          get_prop (Some x) (ascii ''content''),
                          get_prop (Some x) (ascii ''transcript'')] of
         None \<Rightarrow> False
       | Some v \<Rightarrow> \<not> is_string v))"

text \<open>A string with no whitespace at either end.\<close>

definition no_outer_ws :: "jstr \<Rightarrow> bool" where
  "no_outer_ws s = (case s of [] \<Rightarrow> True | c # cs \<Rightarrow> \<not> is_ws c \<and> \<not> is_ws (last s))"

section \<open>The port listener, one task of the event loop at a time\<close>

text \<open>
  A generation is one invocation of the listener of \<open>port.onMessage\<close>; it is numbered by
  the order of arrival and owns the \<open>AbortController\<close> with its number.  The listener is
  asynchronous: it runs until its next \<open>await\<close> and is resumed when the awaited promise
  settles.  \<open>stage\<close> is where a generation is suspended, with the local variables it
  needs: at the call of \<open>PROMPTS\<close>, at \<open>getConfig\<close>, at \<open>fetch\<close>, at \<open>response.text()\<close> (with
  status and status text), at \<open>reader.read()\<close> (with decoder and buffer).
\<close>

datatype stage =
    AwaitPrompts
  | AwaitConfig jstr jstr
  | AwaitFetch ProviderConfig AIConfig
  | AwaitText AIConfig nat jstr
  | AwaitRead ProviderConfig "TextDecoder \<times> jstr"
  | Finished

datatype read_result = Value "byte list" | EndOfStream | ReadFails jstr

text \<open>How the promise a generation awaits settles; of a response only the head is used.\<close>

datatype settlement =
    Prompts jstr jstr
  | PromptsFail jstr
  | Config "AIConfig option"
  | Fetched fetch_result
  | Text "jstr + jstr"
  | Read read_result

text \<open>
  The tasks of the event loop that concern one port: a message arrives (with its
  \<open>action\<close>), the port disconnects, the promise awaited by a generation settles.
\<close>

datatype action = Message jstr | Disconnect | Settle nat settlement

text \<open>What happened, in order: a controller was aborted, a message reached the session.\<close>

datatype entry = Aborted nat | Posted nat port_message

record port =
  controller :: "nat option"
  aborted :: "nat list"
  connected :: bool
  stages :: "nat \<Rightarrow> stage"
  generations :: nat
  history :: "entry list"

definition initial_port :: port where
  "initial_port =
     \<lparr>controller = None, aborted = [], connected = True, stages = (\<lambda>g. Finished),
      generations = 0, history = []\<rparr>"

text \<open>\<open>controller.abort()\<close>.\<close>

definition abort :: "nat \<Rightarrow> port \<Rightarrow> port" where
  "abort c s = s\<lparr>aborted := c # aborted s, history := history s @ [Aborted c]\<rparr>"

text \<open>\<open>safePostMessage\<close>: \<open>port.postMessage\<close> throws on a disconnected port, which is ignored.\<close>

definition safePostMessage :: "nat \<Rightarrow> port_message \<Rightarrow> port \<Rightarrow> port" where
  "safePostMessage g msg s =
     (if connected s then s\<lparr>history := history s @ [Posted g msg]\<rparr> else s)"

text \<open>The callbacks generation \<open>g\<close> passes to \<open>streamAI\<close>; \<open>signal\<close> is the signal of \<open>g\<close>.\<close>

definition onChunk :: "nat \<Rightarrow> StreamChunk \<Rightarrow> port \<Rightarrow> port" where
  "onChunk g c s = safePostMessage g (Chunk (content c) (reasoning c)) s"

definition onDone :: "nat \<Rightarrow> port \<Rightarrow> port" where
  "onDone g s = (safePostMessage g Done s)\<lparr>controller := None\<rparr>"

definition onError :: "nat \<Rightarrow> jstr \<Rightarrow> port \<Rightarrow> port" where
  "onError g m s =
     (if g \<in> set (aborted s) then s
      else (safePostMessage g (Error m) s)\<lparr>controller := None\<rparr>)"

text \<open>The effects of a piece of \<open>streamAI\<close>, run with the callbacks of generation \<open>g\<close>.\<close>

fun deliver :: "nat \<Rightarrow> effect list \<Rightarrow> port \<Rightarrow> port" where
  "deliver g [] s = s"
| "deliver g (OnChunk c # es) s = deliver g es (onChunk g c s)"
| "deliver g (OnDone # es) s = deliver g es (onDone g s)"
| "deliver g (OnError m # es) s = deliver g es (onError g m s)"
| "deliver g (e # es) s = deliver g es s"

definition set_stage :: "nat \<Rightarrow> stage \<Rightarrow> port \<Rightarrow> port" where
  "set_stage g st s = s\<lparr>stages := (stages s)(g := st)\<rparr>"

text \<open>
  The signal is passed to \<open>fetch\<close>.  By the Fetch Standard, once the signal is aborted
  the promise of \<open>fetch\<close> rejects and the body of its response is errored, so that
  \<open>response.text()\<close> and \<open>reader.read()\<close> reject: a generation whose signal is aborted is
  resumed from these three with a rejection, whatever the network had delivered.
\<close>

definition abort_message :: jstr where
  "abort_message = ascii ''signal is aborted without reason''"

definition fetch_settles :: "bool \<Rightarrow> fetch_result \<Rightarrow> fetch_result" where
  "fetch_settles dead res = (if dead then Rejects abort_message else res)"

definition text_settles :: "bool \<Rightarrow> jstr + jstr \<Rightarrow> jstr + jstr" where
  "text_settles dead t = (if dead then Inl abort_message else t)"

definition read_settles :: "bool \<Rightarrow> read_result \<Rightarrow> read_result" where
  "read_settles dead rr = (if dead then ReadFails abort_message else rr)"

text \<open>
  Generation \<open>g\<close>, suspended at a stage, is resumed with a settlement and runs to its
  next \<open>await\<close> or to its end.  The \<open>catch\<close> around the call of \<open>PROMPTS\<close> does what
  \<open>onError\<close> does.
\<close>

fun resume :: "nat \<Rightarrow> stage \<Rightarrow> settlement \<Rightarrow> port \<Rightarrow> port" where
  "resume g AwaitPrompts (Prompts systemPrompt userPrompt) s =
     set_stage g (AwaitConfig systemPrompt userPrompt) s"
| "resume g AwaitPrompts (PromptsFail m) s = set_stage g Finished (onError g m s)"
| "resume g (AwaitConfig systemPrompt userPrompt) (Config stored) s =
     (case prepare stored systemPrompt userPrompt of
        Inl m \<Rightarrow> set_stage g Finished (deliver g (failure m) s)
      | Inr (p, config, requestConfig) \<Rightarrow> set_stage g (AwaitFetch p config) s)"
| "resume g (AwaitFetch p config) (Fetched res) s =
     (case fetch_settles (g \<in> set (aborted s)) res of
        Rejects m \<Rightarrow> set_stage g Finished (deliver g (failure m) s)
      | Resolves r \<Rightarrow>
          if \<not> resp_ok r then
            set_stage g (AwaitText config (resp_status r) (resp_statusText r)) s
          else if resp_body r = None then
            set_stage g Finished (deliver g (failure no_stream) s)
          else set_stage g (AwaitRead p (new_TextDecoder, [])) s)"
| "resume g (AwaitText config st stText) (Text t) s =
     (case text_settles (g \<in> set (aborted s)) t of
        Inl m \<Rightarrow> set_stage g Finished (deliver g (failure m) s)
      | Inr txt \<Rightarrow>
          set_stage g Finished
            (deliver g (failure (request_failed (provider config) st stText txt)) s))"
| "resume g (AwaitRead p st) (Read rr) s =
     (case read_settles (g \<in> set (aborted s)) rr of
        Value v \<Rightarrow>
          (let (st', effs) = read_step p st v
           in set_stage g (AwaitRead p st') (deliver g effs s))
      | EndOfStream \<Rightarrow> set_stage g Finished (deliver g [OnDone] s)
      | ReadFails m \<Rightarrow> set_stage g Finished (deliver g (failure m) s))"
| "resume g st x s = s"

definition streaming_actions :: "jstr list" where
  "streaming_actions =
     map ascii [''summarizeSubtitlesStream'', ''generateMindmapStream'',
                ''generateArticleMindmapStream'']"

text \<open>
  One task.  A message: the listener aborts the controller in place, if any, installs a
  new one and, for a streaming action, suspends at the call of \<open>PROMPTS\<close>.  A disconnect:
  the listener of \<open>onDisconnect\<close> aborts the controller and clears it; the port no longer
  delivers.
\<close>

fun step :: "port \<Rightarrow> action \<Rightarrow> port" where
  "step s (Message a) =
     (let s1 = (case controller s of None \<Rightarrow> s | Some c \<Rightarrow> abort c s);
          g = generations s1
      in s1\<lparr>controller := Some g, generations := Suc g,
            stages := (stages s1)
              (g := (if a \<in> set streaming_actions then AwaitPrompts else Finished))\<rparr>)"
| "step s Disconnect =
     (case controller s of
        None \<Rightarrow> s\<lparr>connected := False\<rparr>
      | Some c \<Rightarrow> (abort c s)\<lparr>controller := None, connected := False\<rparr>)"
| "step s (Settle g x) = resume g (stages s g) x s"

definition run :: "action list \<Rightarrow> port" where
  "run actions = foldl step initial_port actions"

text \<open>
  No message of a generation reaches the session after the controller of that generation
  was aborted; \<open>dead\<close> are the generations aborted so far.
\<close>

fun silent_after_abort :: "nat list \<Rightarrow> entry list \<Rightarrow> bool" where
  "silent_after_abort dead [] = True"
| "silent_after_abort dead (Aborted g # es) = silent_after_abort (g # dead) es"
| "silent_after_abort dead (Posted g m # es) = (g \<notin> set dead \<and> silent_after_abort dead es)"

text \<open>Effects that call neither \<open>onChunk\<close> nor \<open>onDone\<close>.\<close>

fun quiet :: "effect list \<Rightarrow> bool" where
  "quiet [] = True"
| "quiet (OnChunk c # es) = False"
| "quiet (OnDone # es) = False"
| "quiet (e # es) = quiet es"

text \<open>The controllers aborted in a history, and the invariant of the port.\<close>

fun aborted_in :: "entry list \<Rightarrow> nat list" where
  "aborted_in [] = []"
| "aborted_in (Aborted g # es) = g # aborted_in es"
| "aborted_in (Posted g m # es) = aborted_in es"

definition consistent :: "port \<Rightarrow> bool" where
  "consistent s =
     (silent_after_abort [] (history s) \<and> set (aborted s) = set (aborted_in (history s)))"

text \<open>
  The tasks of one undisturbed generation in a world: the message, then the settlements
  the world gives, up to the end of \<open>streamAI\<close>.
\<close>

definition settlements :: "world \<Rightarrow> jstr \<Rightarrow> jstr \<Rightarrow> settlement list" where
  "settlements w systemPrompt userPrompt =
     Prompts systemPrompt userPrompt # Config (stored_config w) #
     (case prepare (stored_config w) systemPrompt userPrompt of
        Inl m \<Rightarrow> []
      | Inr (p, config, requestConfig) \<Rightarrow>
          Fetched (fetch w requestConfig) #
          (case fetch w requestConfig of
             Rejects m \<Rightarrow> []
           | Resolves r \<Rightarrow>
               if \<not> resp_ok r then [Text (resp_text r)]
               else
                 (case resp_body r of
                    None \<Rightarrow> []
                  | Some (vals, ending) \<Rightarrow>
                      map (\<lambda>v. Read (Value v)) vals
                      @ [Read (case ending of None \<Rightarrow> EndOfStream | Some m \<Rightarrow> ReadFails m)])))"

definition undisturbed :: "jstr \<Rightarrow> world \<Rightarrow> jstr \<Rightarrow> jstr \<Rightarrow> action list" where
  "undisturbed a w systemPrompt userPrompt =
     Message a # map (Settle 0) (settlements w systemPrompt userPrompt)"

text \<open>Generation 0 can deliver: the port is connected and its controller is not aborted.\<close>

definition live :: "port \<Rightarrow> bool" where
  "live s = (connected s \<and> 0 \<notin> set (aborted s))"

section \<open>Evaluation\<close>

text \<open>The definitions unfolded to evaluate the decoder and the handling of a line.\<close>

lemmas decode_defs = utf8_handler_def utf8_lead_def utf8_reset_def utf16_def new_TextDecoder_def
  bytes_def ascii_def

lemmas line_defs = process_line_def trim_def is_ws_def startsWith_def ascii_def Let_def
  JSON_parse_def skip_ws_def is_json_ws_def parseStreamChunk_def openai_delta_def or_else_def
  or_undef_def

section \<open>The fuel of the parser\<close>

lemma length_skip_ws: "length (skip_ws s) \<le> length s"
  by (simp add: skip_ws_def length_dropWhile_le)

lemma skip_ws_Cons_length: "skip_ws s = c # cs \<Longrightarrow> length cs < length s"
  using length_skip_ws [of s] by simp

lemma scan_string_length:
  "scan_string m acc s = Some (str, r) \<Longrightarrow> length r < length s"
  by (induction m acc s rule: scan_string.induct)
     (auto split: if_splits option.splits simp: less_Suc_eq)

lemma parse_exponent_length: "parse_exponent s = Some (e, r) \<Longrightarrow> length r \<le> length s"
  by (auto simp: parse_exponent_def Let_def split: list.splits if_splits
      intro: order_trans [OF length_dropWhile_le] le_SucI)

lemma parse_fraction_length: "parse_fraction s = Some (f, r) \<Longrightarrow> length r \<le> length s"
  by (auto simp: parse_fraction_def Let_def split: list.splits if_splits
      intro: order_trans [OF length_dropWhile_le] le_SucI)

lemma parse_number_length:
  assumes "parse_number s = Some (q, r)"
  shows "length r < length s"
proof -
  obtain neg s1 where n: "(case s of [] \<Rightarrow> (False, s)
      | c # r \<Rightarrow> if c = 0x2D then (True, r) else (False, s)) = (neg, s1)"
    by (cases "(case s of [] \<Rightarrow> (False, s)
      | c # r \<Rightarrow> if c = 0x2D then (True, r) else (False, s))")
  define ds where "ds = (case s1 of [] \<Rightarrow> [] | c # r \<Rightarrow> if c = 0x30 then [c] else takeWhile is_digit s1)"
  have s1: "length s1 \<le> length s" using n by (auto split: list.splits if_splits)
  have dsl: "length ds \<le> length s1"
    by (auto simp: ds_def split: list.splits intro: le_SucI length_takeWhile_le)
  from assms n have ne: "ds \<noteq> []"
    by (auto simp: parse_number_def Let_def ds_def split: if_splits)
  from assms n obtain f s3 e where f: "parse_fraction (drop (length ds) s1) = Some (f, s3)"
    and e: "parse_exponent s3 = Some (e, r)"
    by (auto simp: parse_number_def Let_def ds_def split: if_splits option.splits)
  have "length r \<le> length (drop (length ds) s1)"
    using parse_fraction_length [OF f] parse_exponent_length [OF e] by simp
  also have "\<dots> < length s1" using ne dsl by (cases ds) auto
  finally show ?thesis using s1 by simp
qed


lemma startsWith_drop_length:
  "startsWith s p \<Longrightarrow> p \<noteq> [] \<Longrightarrow> length (drop (length p) s) < length s"
  by (cases s) (auto simp: startsWith_def)

lemma literal_lengths:
  "length (ascii ''true'') = 4" "length (ascii ''false'') = 5" "length (ascii ''null'') = 4"
  "ascii ''true'' \<noteq> []" "ascii ''false'' \<noteq> []" "ascii ''null'' \<noteq> []"
  by (simp_all add: ascii_def)

lemma parse_lengths:
  "parse_value f s = Some (v, r) \<Longrightarrow> length r < length s"
  "parse_elements f acc s = Some (vs, r) \<Longrightarrow> length r < length s"
  "parse_members f macc s = Some (kvs, r) \<Longrightarrow> length r < length s"
proof (induction f s and f acc s and f macc s arbitrary: v r and vs r and kvs r
    rule: parse_value_parse_elements_parse_members.induct)
  case (1 s)
  then show ?case by simp
next
  case (2 n s)
  from "2.prems" obtain c cs where s: "s = c # cs" by (cases s) auto
  show ?case
  proof (cases "c = 0x7B")
    case True
    with "2.prems" s obtain d ds where sk: "skip_ws cs = d # ds"
      by (cases "skip_ws cs") auto
    show ?thesis
    proof (cases "d = 0x7D")
      case True
      with "2.prems" s \<open>c = 0x7B\<close> sk have "r = ds" by simp
      then show ?thesis using skip_ws_Cons_length [OF sk] s by simp
    next
      case False
      with "2.prems" s \<open>c = 0x7B\<close> sk obtain kvs where
        "parse_members n [] (d # ds) = Some (kvs, r)"
        by (auto split: option.splits)
      then have "length r < length (d # ds)"
        using "2.IH"(1) [OF s \<open>c = 0x7B\<close> sk False] by blast
      then show ?thesis using skip_ws_Cons_length [OF sk] s by simp
    qed
  next
    case nobrace: False
    show ?thesis
    proof (cases "c = 0x5B")
      case True
      with "2.prems" s nobrace obtain d ds where sk: "skip_ws cs = d # ds"
        by (cases "skip_ws cs") auto
      show ?thesis
      proof (cases "d = 0x5D")
        case True
        with "2.prems" s nobrace \<open>c = 0x5B\<close> sk have "r = ds" by simp
        then show ?thesis using skip_ws_Cons_length [OF sk] s by simp
      next
        case False
        with "2.prems" s nobrace \<open>c = 0x5B\<close> sk obtain vs where
          "parse_elements n [] (d # ds) = Some (vs, r)"
          by (auto split: option.splits)
        then have "length r < length (d # ds)"
          using "2.IH"(2) [OF s nobrace \<open>c = 0x5B\<close> sk False] by blast
        then show ?thesis using skip_ws_Cons_length [OF sk] s by simp
      qed
    next
      case nobracket: False
      show ?thesis
      proof (cases "c = 0x22")
        case True
        with "2.prems" s nobrace nobracket obtain str where
          "scan_string SNormal [] cs = Some (str, r)"
          by (auto split: option.splits)
        then show ?thesis using scan_string_length s by fastforce
      next
        case False
        with "2.prems" s nobrace nobracket show ?thesis
          using startsWith_drop_length [of s "ascii ''true''"]
            startsWith_drop_length [of s "ascii ''false''"]
            startsWith_drop_length [of s "ascii ''null''"]
            parse_number_length [of s]
          by (auto simp: literal_lengths split: if_splits option.splits)
      qed
    qed
  qed
next
  case (3 acc s)
  then show ?case by simp
next
  case (4 n acc s)
  from "4.prems" obtain v r1 where pv: "parse_value n s = Some (v, r1)"
    by (auto split: option.splits)
  then have l1: "length r1 < length s" using "4.IH"(1) by blast
  from "4.prems" pv obtain c cs where sk: "skip_ws r1 = c # cs"
    by (cases "skip_ws r1") auto
  show ?case
  proof (cases "c = 0x2C")
    case True
    with "4.prems" pv sk have "parse_elements n (v # acc) (skip_ws cs) = Some (vs, r)"
      by simp
    then have "length r < length (skip_ws cs)"
      using "4.IH"(2) [OF pv refl sk True] by blast
    then show ?thesis
      using length_skip_ws [of cs] skip_ws_Cons_length [OF sk] l1 by simp
  next
    case False
    with "4.prems" pv sk have "r = cs" by (auto split: if_splits)
    then show ?thesis using skip_ws_Cons_length [OF sk] l1 by simp
  qed
next
  case (5 macc s)
  then show ?case by simp
next
  case (6 n macc s)
  from "6.prems" obtain q qs where s: "s = q # qs" by (cases s) auto
  with "6.prems" have q: "\<not> q \<noteq> 0x22" by (auto split: if_splits)
  with "6.prems" s obtain k r0 where sc: "scan_string SNormal [] qs = Some (k, r0)"
    by (auto split: option.splits)
  then have l0: "length r0 < length qs" by (rule scan_string_length)
  from "6.prems" s q sc obtain c cs where sk: "skip_ws r0 = c # cs"
    by (cases "skip_ws r0") auto
  with "6.prems" s q sc have c: "\<not> c \<noteq> 0x3A" by (auto split: if_splits)
  with "6.prems" s q sc sk obtain v r1 where pv: "parse_value n (skip_ws cs) = Some (v, r1)"
    by (auto split: option.splits)
  then have l1: "length r1 < length (skip_ws cs)"
    using "6.IH"(1) [OF s q sc refl sk c] by blast
  from "6.prems" s q sc sk c pv obtain e es where sk1: "skip_ws r1 = e # es"
    by (cases "skip_ws r1") auto
  have le: "length es < length s"
    using skip_ws_Cons_length [OF sk1] l1 length_skip_ws [of cs] skip_ws_Cons_length [OF sk]
      l0 s by simp
  show ?case
  proof (cases "e = 0x2C")
    case True
    with "6.prems" s q sc sk c pv sk1
    have "parse_members n ((k, v) # macc) (skip_ws es) = Some (kvs, r)" by simp
    then have "length r < length (skip_ws es)"
      using "6.IH"(2) [OF s q sc refl sk c pv refl sk1 True] by blast
    then show ?thesis using length_skip_ws [of es] le by simp
  next
    case False
    with "6.prems" s q sc sk c pv sk1 have "r = es" by (auto split: if_splits)
    then show ?thesis using le by simp
  qed
qed


lemma parse_fuel:
  "2 * length s < f \<Longrightarrow> 2 * length s < f' \<Longrightarrow> parse_value f s = parse_value f' s"
  "2 * length s + 1 < f \<Longrightarrow> 2 * length s + 1 < f' \<Longrightarrow>
     parse_elements f acc s = parse_elements f' acc s"
  "2 * length s + 1 < f \<Longrightarrow> 2 * length s + 1 < f' \<Longrightarrow>
     parse_members f macc s = parse_members f' macc s"
proof (induction f s and f acc s and f macc s arbitrary: f' and f' and f'
    rule: parse_value_parse_elements_parse_members.induct)
  case (1 s)
  then show ?case by simp
next
  case (2 n s)
  from "2.prems" obtain n' where f': "f' = Suc n'" by (cases f') auto
  show ?case
  proof (cases s)
    case Nil
    then show ?thesis by (simp add: f')
  next
    case (Cons c cs)
    show ?thesis
    proof (cases "skip_ws cs")
      case Nil
      then show ?thesis using Cons by (simp add: f')
    next
      case sk: (Cons d ds)
      have small: "2 * length (d # ds) + 1 < n" "2 * length (d # ds) + 1 < n'"
        using skip_ws_Cons_length [OF sk] "2.prems" Cons f' by simp_all
      have m: "parse_members n [] (d # ds) = parse_members n' [] (d # ds)"
        if "c = 0x7B" "d \<noteq> 0x7D"
        using "2.IH"(1) [OF Cons that(1) sk that(2) small] .
      have e: "parse_elements n [] (d # ds) = parse_elements n' [] (d # ds)"
        if "c \<noteq> 0x7B" "c = 0x5B" "d \<noteq> 0x5D"
        using "2.IH"(2) [OF Cons that(1,2) sk that(3) small] .
      show ?thesis
      proof (cases "c = 0x7B")
        case True
        then show ?thesis using Cons sk m by (cases "d = 0x7D") (simp_all add: f')
      next
        case False
        then show ?thesis using Cons sk e
          by (cases "c = 0x5B"; cases "d = 0x5D") (simp_all add: f')
      qed
    qed
  qed
next
  case (3 acc s)
  then show ?case by simp
next
  case (4 n acc s)
  from "4.prems" obtain n' where f': "f' = Suc n'" by (cases f') auto
  have pv: "parse_value n s = parse_value n' s"
    using "4.IH"(1) [of n'] "4.prems" f' by simp
  show ?case
  proof (cases "parse_value n s")
    case None
    then show ?thesis using pv by (simp add: f')
  next
    case (Some a)
    obtain v r1 where a: "a = (v, r1)" by (cases a)
    have pv': "parse_value n' s = Some a" using pv Some by simp
    have l1: "length r1 < length s" using parse_lengths(1) Some a by blast
    show ?thesis
    proof (cases "skip_ws r1")
      case Nil
      then show ?thesis using Some a pv' by (simp add: f')
    next
      case sk: (Cons c cs)
      have small: "2 * length (skip_ws cs) + 1 < n" "2 * length (skip_ws cs) + 1 < n'"
        using skip_ws_Cons_length [OF sk] length_skip_ws [of cs] l1 "4.prems" f' by simp_all
      have e: "parse_elements n (v # acc) (skip_ws cs) = parse_elements n' (v # acc) (skip_ws cs)"
        if "c = 0x2C"
        using "4.IH"(2) [OF Some [unfolded a] refl sk that small] .
      show ?thesis using Some a pv' sk e by (simp add: f')
    qed
  qed
next
  case (5 macc s)
  then show ?case by simp
next
  case (6 n macc s)
  from "6.prems" obtain n' where f': "f' = Suc n'" by (cases f') auto
  show ?case
  proof (cases s)
    case Nil
    then show ?thesis by (simp add: f')
  next
    case (Cons q qs)
    show ?thesis
    proof (cases "q \<noteq> 0x22")
      case True
      then show ?thesis using Cons by (simp add: f')
    next
      case q: False
      show ?thesis
      proof (cases "scan_string SNormal [] qs")
        case None
        then show ?thesis using Cons q by (simp add: f')
      next
        case (Some a)
        obtain k r0 where a: "a = (k, r0)" by (cases a)
        have l0: "length r0 < length qs" using scan_string_length Some a by blast
        show ?thesis
        proof (cases "skip_ws r0")
          case Nil
          then show ?thesis using Cons q Some a by (simp add: f')
        next
          case sk: (Cons c cs)
          show ?thesis
          proof (cases "c \<noteq> 0x3A")
            case True
            then show ?thesis using Cons q Some a sk by (simp add: f')
          next
            case c: False
            have lcs: "length (skip_ws cs) + 2 \<le> length s"
              using skip_ws_Cons_length [OF sk] length_skip_ws [of cs] l0 Cons by simp
            have pv: "parse_value n (skip_ws cs) = parse_value n' (skip_ws cs)"
              using "6.IH"(1) [OF Cons q Some [unfolded a] refl sk c, of n'] lcs "6.prems" f'
              by simp
            show ?thesis
            proof (cases "parse_value n (skip_ws cs)")
              case None
              then show ?thesis using Cons q Some a sk c pv by (simp add: f')
            next
              case pvs: (Some b)
              obtain v r1 where b: "b = (v, r1)" by (cases b)
              have pvs': "parse_value n' (skip_ws cs) = Some b" using pv pvs by simp
              have l1: "length r1 < length (skip_ws cs)" using parse_lengths(1) pvs b by blast
              show ?thesis
              proof (cases "skip_ws r1")
                case Nil
                then show ?thesis using Cons q Some a sk c pvs pvs' b by (simp add: f')
              next
                case sk1: (Cons e es)
                have small: "2 * length (skip_ws es) + 1 < n" "2 * length (skip_ws es) + 1 < n'"
                  using skip_ws_Cons_length [OF sk1] length_skip_ws [of es] l1 lcs "6.prems" f'
                  by simp_all
                have m: "parse_members n ((k, v) # macc) (skip_ws es) =
                    parse_members n' ((k, v) # macc) (skip_ws es)" if "e = 0x2C"
                  using "6.IH"(2) [OF Cons q Some [unfolded a] refl sk c pvs [unfolded b] refl
                      sk1 that small] .
                show ?thesis using Cons q Some a sk c pvs pvs' b sk1 m by (simp add: f')
              qed
            qed
          qed
        qed
      qed
    qed
  qed
qed

text \<open>Any fuel above twice the length of the text gives the result of \<open>JSON_parse\<close>.\<close>

lemma JSON_parse_fuel:
  "2 * length s < f \<Longrightarrow>
   JSON_parse s =
     (case parse_value f (skip_ws s) of
        None \<Rightarrow> None
      | Some (v, r) \<Rightarrow> if skip_ws r = [] then Some v else None)"
proof -
  assume "2 * length s < f"
  then have "parse_value (Suc (length s + length s)) (skip_ws s) = parse_value f (skip_ws s)"
    using length_skip_ws [of s] by (intro parse_fuel(1)) simp_all
  then show ?thesis by (simp add: JSON_parse_def)
qed

section \<open>Chunk boundaries do not matter\<close>

lemma split_nl_nonempty: "split_nl s \<noteq> []"
  by (induction s) (simp_all split: list.splits)

lemma decode_append:
  "decode d (a @ b) = (let (d1, s) = decode d a; (d2, t) = decode d1 b in (d2, s @ t))"
proof (induction a arbitrary: d)
  case Nil
  show ?case by simp
next
  case (Cons x a)
  obtain d1 cps where h: "utf8_handler d x = (d1, cps)" by (cases "utf8_handler d x")
  obtain d2 s where se: "serialize d1 cps = (d2, s)" by (cases "serialize d1 cps")
  obtain d3 t where da: "decode d2 a = (d3, t)" by (cases "decode d2 a")
  obtain d4 u where db: "decode d3 b = (d4, u)" by (cases "decode d3 b")
  show ?case using Cons.IH [of d2] by (simp add: h se da db)
qed

lemma split_nl_append:
  "split_nl (a @ b) = butlast (split_nl a) @ split_nl (last (split_nl a) @ b)"
proof (induction a)
  case Nil
  show ?case by simp
next
  case (Cons c a)
  obtain l ls where sa: "split_nl a = l # ls"
    using split_nl_nonempty [of a] by (cases "split_nl a") auto
  show ?case
  proof (cases "c = 0xA")
    case True
    then show ?thesis using Cons sa by simp
  next
    case False
    show ?thesis
    proof (cases ls)
      case Nil
      then show ?thesis using Cons.IH sa False by simp
    next
      case (Cons l' ls')
      then show ?thesis using Cons.IH sa False by simp
    qed
  qed
qed

lemma last_split_nl_no_newline: "0xA \<notin> set (last (split_nl s))"
proof (induction s)
  case Nil
  show ?case by simp
next
  case (Cons c s)
  obtain l ls where sa: "split_nl s = l # ls"
    using split_nl_nonempty [of s] by (cases "split_nl s") auto
  show ?case using Cons sa by (cases ls) auto
qed

lemma split_nl_no_newline: "0xA \<notin> set s \<Longrightarrow> split_nl s = [s]"
  by (induction s) auto

lemma emitted_append:
  "emitted p (a @ b) = emitted p a @ emitted p (last (split_nl a) @ b)"
proof -
  have "butlast (split_nl (a @ b)) =
      butlast (split_nl a) @ butlast (split_nl (last (split_nl a) @ b))"
    by (subst split_nl_append) (simp add: butlast_append split_nl_nonempty)
  then show ?thesis by (simp add: emitted_def)
qed

lemma read_step_emitted:
  "decode d v = (d', chunk) \<Longrightarrow>
   read_step p (d, buf) v = ((d', last (split_nl (buf @ chunk))), emitted p (buf @ chunk))"
  by (simp add: read_step_def emitted_def split_nl_nonempty Let_def)

text \<open>
  The loop, started with a buffer that holds no newline, emits what the text of the
  buffer followed by the decoded bytes of all the chunks emits.
\<close>

lemma read_loop_emitted:
  "0xA \<notin> set buf \<Longrightarrow>
   read_loop p (d, buf) vals = emitted p (buf @ snd (decode d (concat vals)))"
proof (induction vals arbitrary: d buf)
  case Nil
  then show ?case by (simp add: emitted_def split_nl_no_newline)
next
  case (Cons v vs)
  obtain d' chunk where dv: "decode d v = (d', chunk)" by (cases "decode d v")
  obtain d'' rest where dr: "decode d' (concat vs) = (d'', rest)"
    by (cases "decode d' (concat vs)")
  have ih: "read_loop p (d', last (split_nl (buf @ chunk))) vs =
      emitted p (last (split_nl (buf @ chunk)) @ rest)"
    using Cons.IH [where buf = "last (split_nl (buf @ chunk))" and d = d']
      last_split_nl_no_newline [of "buf @ chunk"] dr by simp
  have whole: "snd (decode d (concat (v # vs))) = chunk @ rest"
    by (simp add: decode_append dv dr)
  have "read_loop p (d, buf) (v # vs) =
      emitted p (buf @ chunk) @ emitted p (last (split_nl (buf @ chunk)) @ rest)"
    by (simp add: read_step_emitted [OF dv] ih)
  also have "\<dots> = emitted p ((buf @ chunk) @ rest)"
    by (rule emitted_append [symmetric])
  finally show ?case by (simp only: whole append_assoc)
qed

lemma read_loop_fresh:
  "read_loop p (new_TextDecoder, []) vals =
   emitted p (snd (decode new_TextDecoder (concat vals)))"
  using read_loop_emitted [of "[]" p new_TextDecoder vals] by simp

text \<open>
  C1: for every byte stream and every partition of it into chunks, wherever the cuts
  fall (inside a line, on a line boundary, inside a multi-byte character), the decode
  loop of \<open>streamAI\<close> run over the chunks does what it does when run over the whole stream
  as one chunk: the same effects, so the same deltas in the same order.
\<close>

theorem chunking_invariant:
  "read_loop p (new_TextDecoder, []) chunks =
     read_loop p (new_TextDecoder, []) [concat chunks]
   \<and> deltas (read_loop p (new_TextDecoder, []) chunks) =
     deltas (read_loop p (new_TextDecoder, []) [concat chunks])"
proof -
  have "read_loop p (new_TextDecoder, []) chunks =
      read_loop p (new_TextDecoder, []) [concat chunks]"
    by (simp only: read_loop_fresh concat.simps append_Nil2)
  then show ?thesis by simp
qed

text \<open>A cut between the bytes of a three-byte character.\<close>

lemma split_inside_character_example:
  \<open>deltas (read_loop OpenAIProvider (new_TextDecoder, [])
      [bytes ''data: {"choices":[{"delta":{"content":"'' @ [0xE4],
       [0xBD, 0xA0] @ bytes ''"}}]}'' @ [0xA]])
   = [\<lparr>content = JStr [0x4F60], reasoning = JNull\<rparr>]\<close>
  by (simp add: read_step_def decode_defs line_defs)

section \<open>The handling of one line\<close>

lemma data_prefix_length: "length (ascii ''data: '') = 6"
  by (simp add: ascii_def)

lemma data_prefix_nonempty: "ascii ''data: '' \<noteq> []" "[] \<noteq> ascii ''data: ''"
  by (simp_all add: ascii_def)

text \<open>
  C3 (amended): every complete line is trimmed; a text is handed to \<open>JSON.parse\<close> exactly
  when the trimmed line carries the prefix \<open>data: \<close> and what follows the prefix is not
  \<open>[DONE]\<close>, and the text handed over is the trimmed line without the prefix.  A blank
  line, a line without the prefix and the sentinel line have no effect at all: a line
  without the prefix is skipped, not parsed.
\<close>

theorem line_handling:
  "(ParseJSON x \<in> set (process_line p line)) =
     (startsWith (trim line) (ascii ''data: '') \<and> x = drop 6 (trim line) \<and> x \<noteq> ascii ''[DONE]'')
   \<and> (process_line p line \<noteq> []) =
     (startsWith (trim line) (ascii ''data: '') \<and> drop 6 (trim line) \<noteq> ascii ''[DONE]'')
   \<and> (trim line = [] \<longrightarrow> process_line p line = [])
   \<and> (\<not> startsWith (trim line) (ascii ''data: '') \<longrightarrow> process_line p line = [])
   \<and> (trim line = ascii ''data: '' @ ascii ''[DONE]'' \<longrightarrow> process_line p line = [])
   \<and> (trim line = ascii ''data: '' @ x \<and> x \<noteq> ascii ''[DONE]'' \<longrightarrow>
        hd (process_line p line) = ParseJSON x)"
proof -
  have a: "(ParseJSON x \<in> set (process_line p line)) =
     (startsWith (trim line) (ascii ''data: '') \<and> x = drop 6 (trim line) \<and> x \<noteq> ascii ''[DONE]'')"
    by (auto simp: process_line_def Let_def startsWith_def data_prefix_nonempty split: option.splits)
  have b: "(process_line p line \<noteq> []) =
     (startsWith (trim line) (ascii ''data: '') \<and> drop 6 (trim line) \<noteq> ascii ''[DONE]'')"
    by (auto simp: process_line_def Let_def startsWith_def data_prefix_nonempty)
  have c: "trim line = [] \<longrightarrow> process_line p line = []"
    by (simp add: process_line_def startsWith_def data_prefix_nonempty)
  have d: "\<not> startsWith (trim line) (ascii ''data: '') \<longrightarrow> process_line p line = []"
    by (simp add: process_line_def Let_def)
  have e: "trim line = ascii ''data: '' @ ascii ''[DONE]'' \<longrightarrow> process_line p line = []"
    by (simp add: process_line_def startsWith_def data_prefix_length Let_def)
  have f: "trim line = ascii ''data: '' @ x \<and> x \<noteq> ascii ''[DONE]'' \<longrightarrow>
        hd (process_line p line) = ParseJSON x"
    by (simp add: process_line_def startsWith_def data_prefix_length data_prefix_nonempty Let_def)
  show ?thesis using a b c d e f by blast
qed

theorem line_handling_witness:
  \<open>trim (ascii '' '') = [] \<and> process_line OpenAIProvider (ascii '' '') = []
   \<and> \<not> startsWith (trim (ascii ''event: ping'')) (ascii ''data: '')
   \<and> process_line OpenAIProvider (ascii ''event: ping'') = []
   \<and> trim (ascii ''data: [DONE] '') = ascii ''data: '' @ ascii ''[DONE]''
   \<and> process_line ClaudeProvider (ascii ''data: [DONE] '') = []
   \<and> trim (ascii '' data: {} '') = ascii ''data: '' @ ascii ''{}''
   \<and> ascii ''{}'' \<noteq> ascii ''[DONE]''
   \<and> hd (process_line GeminiProvider (ascii '' data: {} '')) = ParseJSON (ascii ''{}'')\<close>
proof -
  have h1: "trim (ascii '' '') = []"
    by (simp add: trim_def is_ws_def ascii_def)
  have h2: "\<not> startsWith (trim (ascii ''event: ping'')) (ascii ''data: '')"
    by (simp add: trim_def is_ws_def ascii_def startsWith_def)
  have h3: "trim (ascii ''data: [DONE] '') = ascii ''data: '' @ ascii ''[DONE]''"
    by (simp add: trim_def is_ws_def ascii_def)
  have h4: "trim (ascii '' data: {} '') = ascii ''data: '' @ ascii ''{}''
      \<and> ascii ''{}'' \<noteq> ascii ''[DONE]''"
    by (simp add: trim_def is_ws_def ascii_def)
  have c1: "process_line OpenAIProvider (ascii '' '') = []"
    using line_handling [of "[]" OpenAIProvider "ascii '' ''"] h1 by blast
  have c2: "process_line OpenAIProvider (ascii ''event: ping'') = []"
    using line_handling [of "[]" OpenAIProvider "ascii ''event: ping''"] h2 by blast
  have c3: "process_line ClaudeProvider (ascii ''data: [DONE] '') = []"
    using line_handling [of "[]" ClaudeProvider "ascii ''data: [DONE] ''"] h3 by blast
  have c4: "hd (process_line GeminiProvider (ascii '' data: {} '')) = ParseJSON (ascii ''{}'')"
    using line_handling [of "ascii ''{}''" GeminiProvider "ascii '' data: {} ''"] h4 by blast
  from h1 h2 h3 h4 c1 c2 c3 c4 show ?thesis by blast
qed

text \<open>
  C3 as stated fails: a trimmed, non-blank line that is valid JSON but does not carry the
  prefix is not offered to the parser (and nothing else is done with it).
\<close>

theorem unprefixed_line_not_parsed:
  \<open>trim (ascii ''{"choices":[{"delta":{"content":"x"}}]}'') \<noteq> []
   \<and> \<not> startsWith (trim (ascii ''{"choices":[{"delta":{"content":"x"}}]}'')) (ascii ''data: '')
   \<and> JSON_parse (trim (ascii ''{"choices":[{"delta":{"content":"x"}}]}'')) \<noteq> None
   \<and> ParseJSON (trim (ascii ''{"choices":[{"delta":{"content":"x"}}]}''))
       \<notin> set (process_line OpenAIProvider (ascii ''{"choices":[{"delta":{"content":"x"}}]}''))
   \<and> process_line OpenAIProvider (ascii ''{"choices":[{"delta":{"content":"x"}}]}'') = []\<close>
  by (simp add: line_defs)

section \<open>Failures before the request\<close>

lemma registered_not_inherited:
  "k \<in> set Object_prototype \<Longrightarrow> map_of (rev providers) k = None"
  by (auto simp: Object_prototype_def providers_def ascii_def)

lemma failure_observed: "observed (failure m) = [Error m]"
  by (simp add: observed_def failure_def)

lemma prepare_no_config: "prepare None s u = Inl not_configured"
  by (simp add: prepare_def)

lemma prepare_no_key:
  assumes "map_of (rev (apiKeys c)) (provider c) = None
      \<or> map_of (rev (apiKeys c)) (provider c) = Some []"
  shows "\<exists>m. prepare (Some c) s u = Inl m"
  using assms by (auto simp: prepare_def lookup_member_def)

lemma prepare_no_adapter:
  assumes "map_of (rev providers) (provider c) = None"
  shows "\<exists>m. prepare (Some c) s u = Inl m"
  using assms
  by (auto simp: prepare_def lookup_member_def split: member.splits)

text \<open>
  C4: when the stored configuration is absent, or the API key of the configured provider
  is absent (or empty), or the configured provider names no registered adapter, a call
  of \<open>streamAI\<close> logs, calls \<open>onError\<close> once and does nothing else: the session gets
  exactly one error event and no request is sent.
\<close>

theorem missing_configuration:
  assumes "stored_config w = None
    \<or> (\<exists>c. stored_config w = Some c
          \<and> (map_of (rev (apiKeys c)) (provider c) = None
             \<or> map_of (rev (apiKeys c)) (provider c) = Some []
             \<or> map_of (rev providers) (provider c) = None))"
  shows "\<exists>m. streamAI w systemPrompt userPrompt = [ConsoleError, OnError m]
          \<and> observed (streamAI w systemPrompt userPrompt) = [Error m]
          \<and> (\<forall>r. Fetch r \<notin> set (streamAI w systemPrompt userPrompt))"
proof -
  have "\<exists>m. prepare (stored_config w) systemPrompt userPrompt = Inl m"
    using assms prepare_no_config [of systemPrompt userPrompt]
      prepare_no_key [of _ systemPrompt userPrompt]
      prepare_no_adapter [of _ systemPrompt userPrompt]
    by metis
  then obtain m where "streamAI w systemPrompt userPrompt = failure m"
    by (auto simp: streamAI_def)
  then show ?thesis by (auto simp: failure_def observed_def)
qed

theorem missing_configuration_witness:
  "(\<exists>m. streamAI \<lparr>stored_config = None, fetch = (\<lambda>r. Rejects [])\<rparr> (ascii ''S'') (ascii ''U'')
          = [ConsoleError, OnError m]
        \<and> observed (streamAI \<lparr>stored_config = None, fetch = (\<lambda>r. Rejects [])\<rparr>
            (ascii ''S'') (ascii ''U'')) = [Error m]
        \<and> (\<forall>r. Fetch r \<notin> set (streamAI \<lparr>stored_config = None, fetch = (\<lambda>r. Rejects [])\<rparr>
            (ascii ''S'') (ascii ''U''))))
   \<and> (\<exists>m. streamAI \<lparr>stored_config = Some (scenario_config\<lparr>apiKeys := []\<rparr>),
                       fetch = (\<lambda>r. Rejects [])\<rparr> (ascii ''S'') (ascii ''U'')
          = [ConsoleError, OnError m]
        \<and> observed (streamAI \<lparr>stored_config = Some (scenario_config\<lparr>apiKeys := []\<rparr>),
                       fetch = (\<lambda>r. Rejects [])\<rparr> (ascii ''S'') (ascii ''U'')) = [Error m]
        \<and> (\<forall>r. Fetch r \<notin> set (streamAI
              \<lparr>stored_config = Some (scenario_config\<lparr>apiKeys := []\<rparr>),
               fetch = (\<lambda>r. Rejects [])\<rparr> (ascii ''S'') (ascii ''U''))))
   \<and> (\<exists>m. streamAI \<lparr>stored_config = Some (scenario_config\<lparr>provider := ascii ''grok'',
                         apiKeys := [(ascii ''grok'', ascii ''k'')]\<rparr>),
                       fetch = (\<lambda>r. Rejects [])\<rparr> (ascii ''S'') (ascii ''U'')
          = [ConsoleError, OnError m]
        \<and> observed (streamAI \<lparr>stored_config = Some (scenario_config\<lparr>provider := ascii ''grok'',
                         apiKeys := [(ascii ''grok'', ascii ''k'')]\<rparr>),
                       fetch = (\<lambda>r. Rejects [])\<rparr> (ascii ''S'') (ascii ''U'')) = [Error m]
        \<and> (\<forall>r. Fetch r \<notin> set (streamAI
              \<lparr>stored_config = Some (scenario_config\<lparr>provider := ascii ''grok'',
                         apiKeys := [(ascii ''grok'', ascii ''k'')]\<rparr>),
               fetch = (\<lambda>r. Rejects [])\<rparr> (ascii ''S'') (ascii ''U''))))"
proof -
  have h1: "stored_config \<lparr>stored_config = None, fetch = (\<lambda>r. Rejects [])\<rparr> = None"
    by simp
  have h2: "\<exists>c. stored_config \<lparr>stored_config = Some (scenario_config\<lparr>apiKeys := []\<rparr>),
                       fetch = (\<lambda>r. Rejects [])\<rparr> = Some c
      \<and> (map_of (rev (apiKeys c)) (provider c) = None
         \<or> map_of (rev (apiKeys c)) (provider c) = Some []
         \<or> map_of (rev providers) (provider c) = None)"
    by simp
  have "map_of (rev providers) (ascii ''grok'') = None"
    by (simp add: providers_def ascii_def)
  then have h3: "\<exists>c. stored_config \<lparr>stored_config = Some (scenario_config\<lparr>provider := ascii ''grok'',
                         apiKeys := [(ascii ''grok'', ascii ''k'')]\<rparr>),
                       fetch = (\<lambda>r. Rejects [])\<rparr> = Some c
      \<and> (map_of (rev (apiKeys c)) (provider c) = None
         \<or> map_of (rev (apiKeys c)) (provider c) = Some []
         \<or> map_of (rev providers) (provider c) = None)"
    by simp
  show ?thesis
    using missing_configuration [OF disjI1, OF h1] missing_configuration [OF disjI2, OF h2]
      missing_configuration [OF disjI2, OF h3]
    by blast
qed

section \<open>A malformed line\<close>

lemma deltas_append: "deltas (a @ b) = deltas a @ deltas b"
  by (induction a rule: deltas.induct) simp_all

lemma process_line_no_error: "OnError m \<notin> set (process_line p line)"
  by (auto simp: process_line_def Let_def split: option.splits)

lemma emitted_no_error: "OnError m \<notin> set (emitted p text)"
  by (simp add: emitted_def process_line_no_error)

lemma process_line_parse_failure:
  "startsWith (trim line) (ascii ''data: '') \<Longrightarrow> JSON_parse (drop 6 (trim line)) = None \<Longrightarrow>
   deltas (process_line p line) = []"
  by (simp add: process_line_def Let_def)

lemma on_response_stream:
  "resp_ok r \<Longrightarrow> resp_body r = Some (chunks, None) \<Longrightarrow>
   on_response p config (Resolves r) = read_loop p (new_TextDecoder, []) chunks @ [OnDone]"
  by (simp add: on_response_def)

text \<open>
  C5: when the complete lines of a successful response are \<open>before\<close>, then a line
  \<open>bad\<close> whose payload is not valid JSON, then \<open>after\<close>, the deltas delivered are those of
  \<open>before\<close> followed by those of \<open>after\<close>, in order: the bad line is skipped and every
  later line is still processed.  No error event is emitted and the run ends with
  \<open>onDone\<close>.
\<close>

theorem malformed_line_skipped:
  assumes "butlast (split_nl (snd (decode new_TextDecoder (concat chunks)))) = before @ [bad] @ after"
    and "startsWith (trim bad) (ascii ''data: '')"
    and "JSON_parse (drop 6 (trim bad)) = None"
    and "resp_ok r" and "resp_body r = Some (chunks, None)"
  shows "deltas (read_loop p (new_TextDecoder, []) chunks) =
           deltas (concat (map (process_line p) before))
           @ deltas (concat (map (process_line p) after))
    \<and> (\<forall>m. OnError m \<notin> set (read_loop p (new_TextDecoder, []) chunks))
    \<and> on_response p config (Resolves r) = read_loop p (new_TextDecoder, []) chunks @ [OnDone]"
proof -
  have "read_loop p (new_TextDecoder, []) chunks =
      concat (map (process_line p) before) @ process_line p bad
      @ concat (map (process_line p) after)"
    by (simp add: read_loop_fresh emitted_def assms(1))
  then have "deltas (read_loop p (new_TextDecoder, []) chunks) =
           deltas (concat (map (process_line p) before))
           @ deltas (concat (map (process_line p) after))"
    by (simp add: deltas_append process_line_parse_failure [OF assms(2,3)])
  moreover have "\<forall>m. OnError m \<notin> set (read_loop p (new_TextDecoder, []) chunks)"
    by (simp add: read_loop_fresh emitted_no_error)
  ultimately show ?thesis using on_response_stream [OF assms(4,5)] by blast
qed

theorem malformed_line_skipped_witness:
  \<open>butlast (split_nl (snd (decode new_TextDecoder (concat
       [bytes ''data: {"cho'' @ [0xA] @ bytes ''da'',
        bytes ''ta: {"choices":[{"delta":{"content":"ok"}}]}'' @ [0xA]]))))
     = [] @ [ascii ''data: {"cho''] @ [ascii ''data: {"choices":[{"delta":{"content":"ok"}}]}'']
   \<and> startsWith (trim (ascii ''data: {"cho'')) (ascii ''data: '')
   \<and> JSON_parse (drop 6 (trim (ascii ''data: {"cho''))) = None
   \<and> deltas (read_loop OpenAIProvider (new_TextDecoder, [])
       [bytes ''data: {"cho'' @ [0xA] @ bytes ''da'',
        bytes ''ta: {"choices":[{"delta":{"content":"ok"}}]}'' @ [0xA]])
     = [\<lparr>content = JStr (ascii ''ok''), reasoning = JNull\<rparr>]
   \<and> (\<forall>m. OnError m \<notin> set (read_loop OpenAIProvider (new_TextDecoder, [])
       [bytes ''data: {"cho'' @ [0xA] @ bytes ''da'',
        bytes ''ta: {"choices":[{"delta":{"content":"ok"}}]}'' @ [0xA]]))\<close>
proof -
  let ?chunks = \<open>[bytes ''data: {"cho'' @ [0xA] @ bytes ''da'',
        bytes ''ta: {"choices":[{"delta":{"content":"ok"}}]}'' @ [0xA]]\<close>
  let ?bad = \<open>ascii ''data: {"cho''\<close>
  let ?good = \<open>ascii ''data: {"choices":[{"delta":{"content":"ok"}}]}''\<close>
  let ?r = "\<lparr>resp_ok = True, resp_status = 200, resp_statusText = [], resp_text = Inr [],
             resp_body = Some (?chunks, None)\<rparr>"
  have h1: "butlast (split_nl (snd (decode new_TextDecoder (concat ?chunks))))
      = [] @ [?bad] @ [?good]"
    by (simp add: decode_defs)
  have h2: "startsWith (trim ?bad) (ascii ''data: '')"
    by (simp add: trim_def is_ws_def ascii_def startsWith_def)
  have h3: "JSON_parse (drop 6 (trim ?bad)) = None"
    by (simp add: line_defs)
  have h4: "resp_ok ?r" and h5: "resp_body ?r = Some (?chunks, None)"
    by simp_all
  have g: "deltas (concat (map (process_line OpenAIProvider) [?good]))
      = [\<lparr>content = JStr (ascii ''ok''), reasoning = JNull\<rparr>]"
    by (simp add: line_defs)
  from malformed_line_skipped [OF h1 h2 h3 h4 h5, of OpenAIProvider scenario_config] g h1 h2 h3
  show ?thesis by simp
qed

section \<open>The end-to-end scenario\<close>

lemma scenario_emitted:
  "emitted OpenAIProvider (snd (decode new_TextDecoder scenario_stream)) =
     [ParseJSON (ascii ''{\"choices\":[{\"delta\":{\"content\":\"Hel\"}}]}''),
      OnChunk \<lparr>content = JStr (ascii ''Hel''), reasoning = JNull\<rparr>,
      ParseJSON (ascii ''{\"choices\":[{\"delta\":{\"content\":\"lo\"}}]}''),
      OnChunk \<lparr>content = JStr (ascii ''lo''), reasoning = JNull\<rparr>]"
  by (simp add: scenario_stream_def decode_defs emitted_def line_defs)

lemma scenario_prepare:
  "prepare (Some scenario_config) (ascii ''S'') (ascii ''U'') =
     Inr (OpenAIProvider, scenario_config,
          buildRequestConfig OpenAIProvider scenario_config (ascii ''S'') (ascii ''U'')
            (ascii ''gpt-x'') (ascii ''k'') True)"
  by (simp add: prepare_def scenario_config_def lookup_member_def providers_def ascii_def
      str_or_def del: buildRequestConfig.simps)

text \<open>
  C6: with the configuration \<open>{provider: "openai", apiKeys: {openai: "k"}, model: "gpt-x"}\<close>
  and the prompts \<open>S\<close> and \<open>U\<close>, when the upstream answers the request successfully with
  the byte stream of the scenario, cut into chunks in any way, the session observes
  chunk \<open>Hel\<close>, chunk \<open>lo\<close>, done, in that order and nothing else.
\<close>

theorem end_to_end:
  assumes "stored_config w = Some scenario_config"
    and "fetch w (buildRequestConfig OpenAIProvider scenario_config (ascii ''S'') (ascii ''U'')
           (ascii ''gpt-x'') (ascii ''k'') True) = Resolves r"
    and "resp_ok r" and "resp_body r = Some (chunks, None)"
    and "concat chunks = scenario_stream"
  shows "observed (streamAI w (ascii ''S'') (ascii ''U'')) =
     [Chunk (JStr (ascii ''Hel'')) JNull, Chunk (JStr (ascii ''lo'')) JNull, Done]"
proof -
  have "streamAI w (ascii ''S'') (ascii ''U'') =
      Fetch (buildRequestConfig OpenAIProvider scenario_config (ascii ''S'') (ascii ''U'')
           (ascii ''gpt-x'') (ascii ''k'') True)
      # emitted OpenAIProvider (snd (decode new_TextDecoder scenario_stream)) @ [OnDone]"
    by (simp add: streamAI_def assms(1,2,5) scenario_prepare
        on_response_stream [OF assms(3,4)] read_loop_fresh del: buildRequestConfig.simps)
  then show ?thesis
    by (simp add: scenario_emitted observed_def del: buildRequestConfig.simps)
qed

theorem end_to_end_witness:
  "observed (streamAI
      \<lparr>stored_config = Some scenario_config,
       fetch = (\<lambda>req. Resolves \<lparr>resp_ok = True, resp_status = 200,
                  resp_statusText = ascii ''OK'', resp_text = Inr [],
                  resp_body = Some ([take 20 scenario_stream, drop 20 scenario_stream],
                                    None)\<rparr>)\<rparr>
      (ascii ''S'') (ascii ''U''))
   = [Chunk (JStr (ascii ''Hel'')) JNull, Chunk (JStr (ascii ''lo'')) JNull, Done]"
proof -
  let ?r = "\<lparr>resp_ok = True, resp_status = 200, resp_statusText = ascii ''OK'',
             resp_text = Inr [],
             resp_body = Some ([take 20 scenario_stream, drop 20 scenario_stream], None)\<rparr>"
  let ?w = "\<lparr>stored_config = Some scenario_config, fetch = (\<lambda>req. Resolves ?r)\<rparr>"
  have h1: "stored_config ?w = Some scenario_config" by simp
  have h2: "fetch ?w (buildRequestConfig OpenAIProvider scenario_config (ascii ''S'')
      (ascii ''U'') (ascii ''gpt-x'') (ascii ''k'') True) = Resolves ?r"
    by simp
  have h3: "resp_ok ?r"
    and h4: "resp_body ?r = Some ([take 20 scenario_stream, drop 20 scenario_stream], None)"
    by simp_all
  have h5: "concat [take 20 scenario_stream, drop 20 scenario_stream] = scenario_stream"
    by simp
  from end_to_end [OF h1 h2 h3 h4 h5] show ?thesis .
qed

section \<open>Request construction\<close>

lemma claude_body:
  "body (buildRequestConfig ClaudeProvider config systemPrompt userPrompt m apiKey stream) =
     JObj [(ascii ''model'', JStr m), (ascii ''system'', JStr systemPrompt),
           (ascii ''messages'', JArr [message ''user'' userPrompt]),
           (ascii ''stream'', JBool stream)]"
  by (simp add: Let_def)

lemma gemini_body:
  "body (buildRequestConfig GeminiProvider config systemPrompt userPrompt m apiKey stream) =
     JObj [(ascii ''contents'',
            JArr [JObj [(ascii ''parts'',
              JArr [JObj [(ascii ''text'', JStr (combinedPrompt systemPrompt userPrompt))]])]]),
           (ascii ''generationConfig'',
            JObj [(ascii ''temperature'', JNum (3 / 10)),
                  (ascii ''responseMimeType'', JStr (ascii ''application/json''))])]"
  by (simp add: Let_def)

lemma body_keys_distinct:
  "ascii ''system'' \<noteq> ascii ''model''" "ascii ''system'' \<noteq> ascii ''messages''"
  "ascii ''system'' \<noteq> ascii ''stream''" "ascii ''messages'' \<noteq> ascii ''stream''"
  "ascii ''messages'' \<noteq> ascii ''model''"
  "ascii ''contents'' \<noteq> ascii ''generationConfig''"
  by (simp_all add: ascii_def)

text \<open>
  C7: for non-empty system and user prompts, the Claude adapter puts the system prompt in
  the body field \<open>system\<close> and its \<open>messages\<close> list has one element, the object with role
  \<open>user\<close> whose content is the user prompt, while the Gemini adapter sends one content
  part whose text is the system prompt, two newlines and the user prompt.
\<close>

theorem system_prompt_placement:
  assumes "systemPrompt \<noteq> []" and "userPrompt \<noteq> []"
  shows "get_prop (Some (body (buildRequestConfig ClaudeProvider config systemPrompt userPrompt m apiKey stream)))
           (ascii ''system'') = Some (JStr systemPrompt)
    \<and> get_prop (Some (body (buildRequestConfig ClaudeProvider config systemPrompt userPrompt m apiKey stream)))
           (ascii ''messages'') =
         Some (JArr [JObj [(ascii ''role'', JStr (ascii ''user'')),
                           (ascii ''content'', JStr userPrompt)]])
    \<and> get_prop (Some (body (buildRequestConfig GeminiProvider config systemPrompt userPrompt m apiKey stream)))
           (ascii ''contents'') =
         Some (JArr [JObj [(ascii ''parts'',
           JArr [JObj [(ascii ''text'', JStr (systemPrompt @ [0xA, 0xA] @ userPrompt))]])]])"
  using assms
  by (simp add: claude_body gemini_body body_keys_distinct combinedPrompt_def message_def
      del: buildRequestConfig.simps)

theorem system_prompt_placement_witness:
  "ascii ''S'' \<noteq> [] \<and> ascii ''U'' \<noteq> []
   \<and> get_prop (Some (body (buildRequestConfig ClaudeProvider scenario_config (ascii ''S'')
         (ascii ''U'') (ascii ''m'') (ascii ''k'') True))) (ascii ''system'')
       = Some (JStr (ascii ''S''))
   \<and> get_prop (Some (body (buildRequestConfig ClaudeProvider scenario_config (ascii ''S'')
         (ascii ''U'') (ascii ''m'') (ascii ''k'') True))) (ascii ''messages'')
       = Some (JArr [JObj [(ascii ''role'', JStr (ascii ''user'')),
                          (ascii ''content'', JStr (ascii ''U''))]])
   \<and> get_prop (Some (body (buildRequestConfig GeminiProvider scenario_config (ascii ''S'')
         (ascii ''U'') (ascii ''m'') (ascii ''k'') True))) (ascii ''contents'')
       = Some (JArr [JObj [(ascii ''parts'',
           JArr [JObj [(ascii ''text'', JStr (ascii ''S'' @ [0xA, 0xA] @ ascii ''U''))]])]])"
proof -
  have h1: "ascii ''S'' \<noteq> []" and h2: "ascii ''U'' \<noteq> []"
    by (simp_all add: ascii_def)
  from system_prompt_placement [OF h1 h2] h1 h2 show ?thesis by blast
qed

text \<open>
  C9: the model segment of the URL the Gemini adapter builds is \<open>fullModelName\<close> of the
  model: \<open>models/\<close> followed by the model without a leading \<open>models/\<close>, so the prefix
  stands once whether or not the model had it, and prefixing is idempotent.
\<close>

theorem gemini_model_prefix:
  "fullModelName (fullModelName m) = fullModelName m
   \<and> fullModelName m =
       ascii ''models/'' @ (if startsWith m (ascii ''models/'') then drop 7 m else m)
   \<and> url (buildRequestConfig GeminiProvider config systemPrompt userPrompt m apiKey stream) =
       str_or (baseUrl config) (getDefaultBaseUrl GeminiProvider) @ ascii ''/''
       @ fullModelName m @ ascii '':''
       @ (if stream then ascii ''streamGenerateContent'' else ascii ''generateContent'')
       @ ascii ''?'' @ ascii ''key='' @ apiKey @ (if stream then ascii ''&alt=sse'' else [])"
proof -
  have len: "length (ascii ''models/'') = 7" by (simp add: ascii_def)
  have pre: "startsWith (ascii ''models/'' @ x) (ascii ''models/'')" for x
    by (simp add: startsWith_def)
  have a: "fullModelName (fullModelName m) = fullModelName m"
    by (simp add: fullModelName_def pre)
  have b: "fullModelName m =
       ascii ''models/'' @ (if startsWith m (ascii ''models/'') then drop 7 m else m)"
  proof (cases "startsWith m (ascii ''models/'')")
    case True
    then have "take 7 m = ascii ''models/''" by (simp add: startsWith_def len)
    then have "ascii ''models/'' @ drop 7 m = m" by (metis append_take_drop_id)
    then show ?thesis using True by (simp add: fullModelName_def)
  next
    case False
    then show ?thesis by (simp add: fullModelName_def)
  qed
  have c: "url (buildRequestConfig GeminiProvider config systemPrompt userPrompt m apiKey stream) =
       str_or (baseUrl config) (getDefaultBaseUrl GeminiProvider) @ ascii ''/''
       @ fullModelName m @ ascii '':''
       @ (if stream then ascii ''streamGenerateContent'' else ascii ''generateContent'')
       @ ascii ''?'' @ ascii ''key='' @ apiKey @ (if stream then ascii ''&alt=sse'' else [])"
    by (simp add: Let_def)
  from a b c show ?thesis by blast
qed

section \<open>Empty deltas\<close>

lemma or_else_absent: "absent_or_empty v \<Longrightarrow> or_else v JNull = JNull"
  by (auto simp: absent_or_empty_def or_else_def)

lemma truthy_not_empty: "truthy v \<Longrightarrow> v \<noteq> JNull \<and> v \<noteq> JStr []"
  by (cases v) simp_all

text \<open>
  C8 (amended): a decoded payload whose content delta and reasoning delta are both absent
  or the empty string emits no chunk: \<open>parseStreamChunk\<close> turns an empty string into
  \<open>null\<close>, and the guard fires exactly when the content or the reasoning of the chunk is
  truthy, which for a string means non-empty and in every case means neither \<open>null\<close> nor
  the empty string.
\<close>

theorem empty_delta_not_emitted:
  "(startsWith (trim line) (ascii ''data: '') \<and> JSON_parse (drop 6 (trim line)) = Some data
      \<and> absent_or_empty (raw_content p data) \<and> absent_or_empty (raw_reasoning p data)
      \<longrightarrow> deltas (process_line p line) = [] \<and> (\<forall>c. OnChunk c \<notin> set (process_line p line))
          \<and> parseStreamChunk p data = \<lparr>content = JNull, reasoning = JNull\<rparr>)
   \<and> (raw_content p data = Some (JStr []) \<longrightarrow> content (parseStreamChunk p data) = JNull)
   \<and> (raw_reasoning p data = Some (JStr []) \<longrightarrow> reasoning (parseStreamChunk p data) = JNull)
   \<and> (OnChunk c \<in> set (process_line p line) \<longrightarrow> truthy (content c) \<or> truthy (reasoning c))
   \<and> (startsWith (trim line) (ascii ''data: '') \<and> drop 6 (trim line) \<noteq> ascii ''[DONE]''
        \<and> JSON_parse (drop 6 (trim line)) = Some data
        \<and> (truthy (content (parseStreamChunk p data))
           \<or> truthy (reasoning (parseStreamChunk p data)))
        \<longrightarrow> process_line p line
            = [ParseJSON (drop 6 (trim line)), OnChunk (parseStreamChunk p data)])
   \<and> truthy (JStr s) = (s \<noteq> [])
   \<and> (OnChunk c \<in> set (process_line p line) \<longrightarrow>
        (content c \<noteq> JNull \<and> content c \<noteq> JStr [])
        \<or> (reasoning c \<noteq> JNull \<and> reasoning c \<noteq> JStr []))"
proof -
  have a: "deltas (process_line p line) = [] \<and> (\<forall>c. OnChunk c \<notin> set (process_line p line))
          \<and> parseStreamChunk p data = \<lparr>content = JNull, reasoning = JNull\<rparr>"
    if "startsWith (trim line) (ascii ''data: '')" "JSON_parse (drop 6 (trim line)) = Some data"
      "absent_or_empty (raw_content p data)" "absent_or_empty (raw_reasoning p data)"
    using that by (simp add: process_line_def Let_def parseStreamChunk_def or_else_absent)
  have b: "content (parseStreamChunk p data) = JNull" if "raw_content p data = Some (JStr [])"
    using that by (simp add: parseStreamChunk_def or_else_def)
  have c: "reasoning (parseStreamChunk p data) = JNull" if "raw_reasoning p data = Some (JStr [])"
    using that by (simp add: parseStreamChunk_def or_else_def)
  have d: "truthy (content c) \<or> truthy (reasoning c)"
    if "OnChunk c \<in> set (process_line p line)"
    using that by (auto simp: process_line_def Let_def split: if_splits option.splits)
  have e: "process_line p line
      = [ParseJSON (drop 6 (trim line)), OnChunk (parseStreamChunk p data)]"
    if "startsWith (trim line) (ascii ''data: '')" "drop 6 (trim line) \<noteq> ascii ''[DONE]''"
      "JSON_parse (drop 6 (trim line)) = Some data"
      "truthy (content (parseStreamChunk p data)) \<or> truthy (reasoning (parseStreamChunk p data))"
  proof -
    have "trim line \<noteq> []"
      using that(1) by (auto simp: startsWith_def data_prefix_nonempty)
    then show ?thesis using that by (simp add: process_line_def Let_def)
  qed
  have f: "truthy (JStr s) = (s \<noteq> [])" by simp
  have g: "(content c \<noteq> JNull \<and> content c \<noteq> JStr [])
        \<or> (reasoning c \<noteq> JNull \<and> reasoning c \<noteq> JStr [])"
    if "OnChunk c \<in> set (process_line p line)"
    using d [OF that] truthy_not_empty by blast
  show ?thesis using a b c d e f g by blast
qed

theorem empty_delta_not_emitted_witness:
  \<open>startsWith (trim (ascii ''data: {"choices":[{"delta":{"content":""}}]}'')) (ascii ''data: '')
   \<and> JSON_parse (drop 6 (trim (ascii ''data: {"choices":[{"delta":{"content":""}}]}'')))
       = Some (JObj [(ascii ''choices'',
                JArr [JObj [(ascii ''delta'', JObj [(ascii ''content'', JStr [])])]])])
   \<and> raw_content OpenAIProvider (JObj [(ascii ''choices'',
         JArr [JObj [(ascii ''delta'', JObj [(ascii ''content'', JStr [])])]])]) = Some (JStr [])
   \<and> absent_or_empty (raw_reasoning OpenAIProvider (JObj [(ascii ''choices'',
         JArr [JObj [(ascii ''delta'', JObj [(ascii ''content'', JStr [])])]])]))
   \<and> deltas (process_line OpenAIProvider
         (ascii ''data: {"choices":[{"delta":{"content":""}}]}'')) = []
   \<and> content (parseStreamChunk OpenAIProvider (JObj [(ascii ''choices'',
         JArr [JObj [(ascii ''delta'', JObj [(ascii ''content'', JStr [])])]])])) = JNull
   \<and> startsWith (trim (ascii ''data: {"choices":[{"delta":{"content":"x"}}]}'')) (ascii ''data: '')
   \<and> drop 6 (trim (ascii ''data: {"choices":[{"delta":{"content":"x"}}]}'')) \<noteq> ascii ''[DONE]''
   \<and> JSON_parse (drop 6 (trim (ascii ''data: {"choices":[{"delta":{"content":"x"}}]}'')))
       = Some (JObj [(ascii ''choices'',
                JArr [JObj [(ascii ''delta'', JObj [(ascii ''content'', JStr (ascii ''x''))])]])])
   \<and> truthy (content (parseStreamChunk OpenAIProvider (JObj [(ascii ''choices'',
         JArr [JObj [(ascii ''delta'', JObj [(ascii ''content'', JStr (ascii ''x''))])]])])))
   \<and> process_line OpenAIProvider (ascii ''data: {"choices":[{"delta":{"content":"x"}}]}'')
       = [ParseJSON (drop 6 (trim (ascii ''data: {"choices":[{"delta":{"content":"x"}}]}''))),
          OnChunk (parseStreamChunk OpenAIProvider (JObj [(ascii ''choices'',
            JArr [JObj [(ascii ''delta'', JObj [(ascii ''content'', JStr (ascii ''x''))])]])]))]\<close>
proof -
  let ?line = \<open>ascii ''data: {"choices":[{"delta":{"content":""}}]}''\<close>
  let ?data = "JObj [(ascii ''choices'',
         JArr [JObj [(ascii ''delta'', JObj [(ascii ''content'', JStr [])])]])]"
  let ?line' = \<open>ascii ''data: {"choices":[{"delta":{"content":"x"}}]}''\<close>
  let ?data' = "JObj [(ascii ''choices'',
         JArr [JObj [(ascii ''delta'', JObj [(ascii ''content'', JStr (ascii ''x''))])]])]"
  have h1: "startsWith (trim ?line) (ascii ''data: '')"
    by (simp add: trim_def is_ws_def ascii_def startsWith_def)
  have h2: "JSON_parse (drop 6 (trim ?line)) = Some ?data"
    by (simp add: line_defs)
  have h3: "raw_content OpenAIProvider ?data = Some (JStr [])"
    by (simp add: openai_delta_def ascii_def)
  have h4: "absent_or_empty (raw_reasoning OpenAIProvider ?data)"
    by (simp add: openai_delta_def ascii_def absent_or_empty_def or_undef_def)
  have h3': "absent_or_empty (raw_content OpenAIProvider ?data)"
    using h3 by (simp add: absent_or_empty_def)
  have k1: "startsWith (trim ?line') (ascii ''data: '')"
    by (simp add: trim_def is_ws_def ascii_def startsWith_def)
  have k2: "drop 6 (trim ?line') \<noteq> ascii ''[DONE]''"
    by (simp add: trim_def is_ws_def ascii_def)
  have k3: "JSON_parse (drop 6 (trim ?line')) = Some ?data'"
    by (simp add: line_defs)
  have k4: "truthy (content (parseStreamChunk OpenAIProvider ?data'))"
    by (simp add: parseStreamChunk_def openai_delta_def or_else_def ascii_def)
  have c1: "deltas (process_line OpenAIProvider ?line) = []"
    using empty_delta_not_emitted [where line = ?line and data = ?data and p = OpenAIProvider]
      h1 h2 h3' h4 by blast
  have c2: "content (parseStreamChunk OpenAIProvider ?data) = JNull"
    using empty_delta_not_emitted [where line = ?line and data = ?data and p = OpenAIProvider]
      h3 by blast
  have c3: "process_line OpenAIProvider ?line'
      = [ParseJSON (drop 6 (trim ?line')), OnChunk (parseStreamChunk OpenAIProvider ?data')]"
    using empty_delta_not_emitted [where line = ?line' and data = ?data' and p = OpenAIProvider]
      k1 k2 k3 k4 by blast
  from h1 h2 h3 h4 k1 k2 k3 k4 c1 c2 c3 show ?thesis by blast
qed

text \<open>
  C8 as stated fails in its last clause: the guard also fires when the content is a
  truthy value that is not a string, here \<open>true\<close>, a number and an object.
\<close>

theorem truthy_non_string_emitted:
  \<open>deltas (process_line OpenAIProvider
       (ascii ''data: {"choices":[{"delta":{"content":true}}]}''))
     = [\<lparr>content = JBool True, reasoning = JNull\<rparr>]
   \<and> \<not> is_string (JBool True) \<and> \<not> is_string JNull
   \<and> deltas (process_line OpenAIProvider
       (ascii ''data: {"choices":[{"delta":{"content":5}}]}''))
     = [\<lparr>content = JNum 5, reasoning = JNull\<rparr>]
   \<and> \<not> is_string (JNum 5)
   \<and> deltas (process_line ClaudeProvider
       (ascii ''data: {"type":"content_block_delta","delta":{"text":{}}}''))
     = [\<lparr>content = JObj [], reasoning = JNull\<rparr>]
   \<and> \<not> is_string (JObj [])\<close>
  by (simp add: line_defs parse_number_def parse_fraction_def parse_exponent_def is_digit_def
      digits_val_def)

section \<open>formatSubtitlesForAI\<close>

lemma chosen_text:
  "or_else (or_undef a (or_undef b c)) (JStr []) =
     (case first_truthy [a, b, c] of None \<Rightarrow> JStr [] | Some v \<Rightarrow> v)"
  by (cases a; cases b; cases c) (auto simp: or_else_def or_undef_def)

lemma first_truthy_truthy: "first_truthy vs = Some v \<Longrightarrow> truthy v"
  by (induction vs rule: first_truthy.induct) (auto split: if_splits)

lemma subtitle_text_throws: "(\<exists>e. subtitle_text x = Inl e) = malformed x"
proof (cases "x = JNull")
  case True
  then show ?thesis by (simp add: subtitle_text_def malformed_def)
next
  case False
  show ?thesis
  proof (cases "first_truthy [get_prop (Some x) (ascii ''text''),
      get_prop (Some x) (ascii ''content''), get_prop (Some x) (ascii ''transcript'')]")
    case None
    then show ?thesis using False
      by (simp add: subtitle_text_def malformed_def chosen_text del: first_truthy.simps)
  next
    case (Some v)
    then show ?thesis using False
      by (cases v) (simp_all add: subtitle_text_def malformed_def chosen_text del: first_truthy.simps)
  qed
qed

lemma subtitle_text_error: "subtitle_text x = Inl e \<Longrightarrow> e = TypeError"
  by (auto simp: subtitle_text_def split: if_splits json.splits)

lemma map_subtitle_text_throws:
  "(\<exists>e. map_subtitle_text xs = Inl e) = (\<exists>x \<in> set xs. malformed x)"
proof (induction xs)
  case Nil
  show ?case by simp
next
  case (Cons x xs)
  show ?case
  proof (cases "subtitle_text x")
    case (Inl e)
    then have "malformed x" using subtitle_text_throws [of x] by auto
    then show ?thesis using Inl by auto
  next
    case (Inr t)
    then have "\<not> malformed x" using subtitle_text_throws [of x] by auto
    then show ?thesis using Inr Cons.IH by (auto split: sum.splits)
  qed
qed

lemma last_dropWhile: "dropWhile P xs \<noteq> [] \<Longrightarrow> last (dropWhile P xs) = last xs"
  by (induction xs) (auto split: if_splits)

lemma trim_no_outer_ws: "no_outer_ws (trim s)"
proof (cases "trim s")
  case Nil
  then show ?thesis by (simp add: no_outer_ws_def)
next
  case (Cons c cs)
  let ?t = "dropWhile is_ws s"
  let ?u = "dropWhile is_ws (rev ?t)"
  have tr: "trim s = rev ?u" by (simp add: trim_def)
  with Cons have u: "?u \<noteq> []" by auto
  have t: "?t \<noteq> []"
  proof
    assume e: "?t = []"
    have "?u = []" unfolding e by simp
    with u show False by blast
  qed
  have "\<not> is_ws (hd ?u)" using u by (rule hd_dropWhile)
  then have l: "\<not> is_ws (last (trim s))" using u by (simp add: tr last_rev)
  have "last ?u = last (rev ?t)" using u by (rule last_dropWhile)
  then have "hd (trim s) = hd ?t" using u t by (simp add: tr hd_rev last_rev)
  moreover have "\<not> is_ws (hd ?t)" using t by (rule hd_dropWhile)
  ultimately have "\<not> is_ws (hd (trim s))" by simp
  then show ?thesis using l Cons by (simp add: no_outer_ws_def)
qed

lemma length_trim: "length (trim s) \<le> length s"
proof -
  have "length (trim s) \<le> length (dropWhile is_ws s)"
    unfolding trim_def length_rev by (metis length_dropWhile_le length_rev)
  also have "\<dots> \<le> length s" by (rule length_dropWhile_le)
  finally show ?thesis .
qed

lemma lastIndexOf_less: "lastIndexOf s c < int (length s)"
  by (cases "c \<in> set s") (auto simp: lastIndexOf_def)

lemma limit_length_le: "length (limit_length ft) \<le> 8000"
proof (cases "length ft \<le> 8000")
  case True
  then show ?thesis by (simp add: limit_length_def)
next
  case False
  have p: "lastIndexOf (take 8000 ft) 0x3002 < 8000"
    using lastIndexOf_less [of "take 8000 ft" "0x3002"] False by simp
  have q: "lastIndexOf (take 8000 ft) 0x20 < 8000"
    using lastIndexOf_less [of "take 8000 ft" "0x20"] False by simp
  have bound: "length (trim (take (nat cp) ft)) \<le> 8000" if "cp \<le> 8000" for cp :: int
  proof -
    have "length (trim (take (nat cp) ft)) \<le> length (take (nat cp) ft)"
      by (rule length_trim)
    also have "\<dots> \<le> nat cp" by simp
    also have "\<dots> \<le> 8000" using that by simp
    finally show ?thesis .
  qed
  show ?thesis using False p q
    by (simp add: limit_length_def Let_def bound)
qed

lemma limit_length_no_outer_ws: "no_outer_ws ft \<Longrightarrow> no_outer_ws (limit_length ft)"
  by (simp add: limit_length_def Let_def trim_no_outer_ws)

lemma formattedText_no_outer_ws: "no_outer_ws (formattedText texts)"
  by (simp add: formattedText_def trim_no_outer_ws)

text \<open>
  C10 (amended): \<open>formatSubtitlesForAI\<close> throws exactly when its argument is not an array,
  is an empty array, or has an element that is \<open>null\<close> or whose first truthy field among
  \<open>text\<close>, \<open>content\<close> and \<open>transcript\<close> is not a string; otherwise it returns a string
  of at most 8000 code units with no whitespace at either end.
\<close>

theorem formatSubtitles_contract:
  "(\<exists>e. formatSubtitlesForAI subtitles = Inl e) =
      (case subtitles of
         Some (JArr xs) \<Rightarrow> xs = [] \<or> (\<exists>x \<in> set xs. malformed x)
       | _ \<Rightarrow> True)
   \<and> (\<forall>s. formatSubtitlesForAI subtitles = Inr s \<longrightarrow> length s \<le> 8000 \<and> no_outer_ws s)"
proof -
  have a: "(\<exists>e. formatSubtitlesForAI subtitles = Inl e) =
      (case subtitles of
         Some (JArr xs) \<Rightarrow> xs = [] \<or> (\<exists>x \<in> set xs. malformed x)
       | _ \<Rightarrow> True)"
  proof (cases subtitles)
    case None
    then show ?thesis by (simp add: formatSubtitlesForAI_def)
  next
    case (Some j)
    show ?thesis
    proof (cases j)
      case (JArr xs)
      show ?thesis
      proof (cases "map_subtitle_text xs")
        case (Inl e)
        then show ?thesis using Some JArr map_subtitle_text_throws [of xs]
          by (auto simp: formatSubtitlesForAI_def)
      next
        case (Inr ts)
        then show ?thesis using Some JArr map_subtitle_text_throws [of xs]
          by (auto simp: formatSubtitlesForAI_def)
      qed
    qed (simp_all add: Some formatSubtitlesForAI_def)
  qed
  have b: "length s \<le> 8000 \<and> no_outer_ws s" if "formatSubtitlesForAI subtitles = Inr s" for s
  proof -
    from that obtain texts where "s = limit_length (formattedText texts)"
      by (auto simp: formatSubtitlesForAI_def split: option.splits json.splits if_splits sum.splits)
    then show ?thesis
      by (simp add: limit_length_le limit_length_no_outer_ws formattedText_no_outer_ws)
  qed
  show ?thesis using a b by blast
qed

theorem formatSubtitles_contract_witness:
  "formatSubtitlesForAI (Some (JArr [JObj [(ascii ''text'', JStr (ascii '' hello ''))],
       JObj [(ascii ''content'', JStr (ascii ''big  world''))]]))
     = Inr (ascii ''hello big world'')
   \<and> length (ascii ''hello big world'') \<le> 8000 \<and> no_outer_ws (ascii ''hello big world'')
   \<and> (\<exists>e. formatSubtitlesForAI (Some (JArr [])) = Inl e)
   \<and> malformed JNull \<and> (\<exists>e. formatSubtitlesForAI (Some (JArr [JStr [], JNull])) = Inl e)"
proof -
  let ?input = "Some (JArr [JObj [(ascii ''text'', JStr (ascii '' hello ''))],
       JObj [(ascii ''content'', JStr (ascii ''big  world''))]])"
  have h: "formatSubtitlesForAI ?input = Inr (ascii ''hello big world'')"
    by (simp add: formatSubtitlesForAI_def subtitle_text_def or_else_def or_undef_def
        ascii_def trim_def is_ws_def formattedText_def dedupe_def merge_short_def
        limit_length_def)
  have c1: "length (ascii ''hello big world'') \<le> 8000 \<and> no_outer_ws (ascii ''hello big world'')"
    using formatSubtitles_contract [of ?input] h by blast
  have c2: "\<exists>e. formatSubtitlesForAI (Some (JArr [])) = Inl e"
    using formatSubtitles_contract [of "Some (JArr [])"] by simp
  have m: "malformed JNull" by (simp add: malformed_def)
  have c3: "\<exists>e. formatSubtitlesForAI (Some (JArr [JStr [], JNull])) = Inl e"
    using formatSubtitles_contract [of "Some (JArr [JStr [], JNull])"] m by simp
  from h c1 c2 m c3 show ?thesis by blast
qed

text \<open>
  C10 as stated fails: a non-empty array makes the function throw when an element is
  \<open>null\<close>, or has a number as its \<open>text\<close>.
\<close>

theorem malformed_element_throws:
  "formatSubtitlesForAI (Some (JArr [JNull])) = Inl TypeError
   \<and> formatSubtitlesForAI (Some (JArr [JObj [(ascii ''text'', JNum 5)]])) = Inl TypeError"
  by (simp add: formatSubtitlesForAI_def subtitle_text_def or_else_def or_undef_def ascii_def)

section \<open>Cancellation\<close>

lemma silent_append_Aborted:
  "silent_after_abort dead (es @ [Aborted g]) = silent_after_abort dead es"
  by (induction dead es rule: silent_after_abort.induct) simp_all

lemma silent_append_Posted:
  "silent_after_abort dead (es @ [Posted g m]) =
     (silent_after_abort dead es \<and> g \<notin> set dead \<and> g \<notin> set (aborted_in es))"
  by (induction dead es rule: silent_after_abort.induct) auto

lemma aborted_in_append: "aborted_in (es @ fs) = aborted_in es @ aborted_in fs"
  by (induction es rule: aborted_in.induct) simp_all

lemma consistent_initial: "consistent initial_port"
  by (simp add: consistent_def initial_port_def)

lemma consistent_abort: "consistent s \<Longrightarrow> consistent (abort c s)"
  by (simp add: consistent_def abort_def silent_append_Aborted aborted_in_append)

lemma consistent_post:
  "consistent s \<Longrightarrow> g \<notin> set (aborted s) \<Longrightarrow> consistent (safePostMessage g msg s)"
  by (simp add: consistent_def safePostMessage_def silent_append_Posted aborted_in_append)

lemma aborted_post: "aborted (safePostMessage g msg s) = aborted s"
  by (simp add: safePostMessage_def)

lemma consistent_fields:
  "history s' = history s \<Longrightarrow> aborted s' = aborted s \<Longrightarrow> consistent s' = consistent s"
  by (simp add: consistent_def)

lemma consistent_onError: "consistent s \<Longrightarrow> consistent (onError g m s)"
  using consistent_post [of s g "Error m"]
  by (simp add: onError_def consistent_def)

lemma consistent_onChunk:
  "consistent s \<Longrightarrow> g \<notin> set (aborted s) \<Longrightarrow> consistent (onChunk g c s)"
  by (simp add: onChunk_def consistent_post)

lemma consistent_onDone:
  "consistent s \<Longrightarrow> g \<notin> set (aborted s) \<Longrightarrow> consistent (onDone g s)"
  using consistent_post [of s g Done]
  by (simp add: onDone_def consistent_def)

lemma aborted_callbacks:
  "aborted (onChunk g c s) = aborted s" "aborted (onDone g s) = aborted s"
  "aborted (onError g m s) = aborted s"
  by (simp_all add: onChunk_def onDone_def onError_def aborted_post)

lemma consistent_deliver:
  "consistent s \<Longrightarrow> g \<in> set (aborted s) \<longrightarrow> quiet effs \<Longrightarrow> consistent (deliver g effs s)"
proof (induction g effs s rule: deliver.induct)
  case (2 g c es s)
  then show ?case by (simp add: consistent_onChunk aborted_callbacks)
next
  case (3 g es s)
  then show ?case by (simp add: consistent_onDone aborted_callbacks)
next
  case (4 g m es s)
  then show ?case by (simp add: consistent_onError aborted_callbacks)
qed simp_all

lemma consistent_set_stage: "consistent (set_stage g st s) = consistent s"
  by (simp add: set_stage_def consistent_def)

lemma quiet_failure: "quiet (failure m)"
  by (simp add: failure_def)

lemma consistent_failure: "consistent s \<Longrightarrow> consistent (deliver g (failure m) s)"
  by (rule consistent_deliver) (simp_all add: quiet_failure)

lemma consistent_resume: "consistent s \<Longrightarrow> consistent (resume g st x s)"
proof (induction g st x s rule: resume.induct)
  case (1 g systemPrompt userPrompt s)
  then show ?case by (simp add: consistent_set_stage)
next
  case (2 g m s)
  then show ?case by (simp add: consistent_set_stage consistent_onError)
next
  case (3 g systemPrompt userPrompt stored s)
  then show ?case
    by (simp add: consistent_set_stage consistent_failure split: sum.splits prod.splits)
next
  case (4 g p config res s)
  then show ?case
    by (simp add: consistent_set_stage consistent_failure split: fetch_result.splits)
next
  case (5 g config st stText t s)
  then show ?case
    by (simp add: consistent_set_stage consistent_failure split: sum.splits)
next
  case (6 g p st rr s)
  show ?case
  proof (cases "g \<in> set (aborted s)")
    case True
    then show ?thesis using 6
      by (simp add: read_settles_def consistent_set_stage consistent_failure)
  next
    case False
    then have "consistent (deliver g effs s)" for effs
      using 6 by (simp add: consistent_deliver)
    then show ?thesis using 6 False
      by (simp add: read_settles_def consistent_set_stage consistent_failure
          consistent_onDone split: read_result.splits prod.splits)
  qed
qed simp_all

lemma consistent_step:
  assumes "consistent s"
  shows "consistent (step s a)"
proof (cases a)
  case (Message act)
  show ?thesis
  proof (cases "controller s")
    case None
    then show ?thesis using Message assms
      by (simp add: consistent_def Let_def)
  next
    case (Some c)
    then show ?thesis using Message consistent_abort [OF assms, of c]
      by (simp add: consistent_def Let_def)
  qed
next
  case Disconnect
  show ?thesis
  proof (cases "controller s")
    case None
    then show ?thesis using Disconnect assms by (simp add: consistent_def)
  next
    case (Some c)
    then show ?thesis using Disconnect consistent_abort [OF assms, of c]
      by (simp add: consistent_def)
  qed
next
  case (Settle g x)
  then show ?thesis using assms by (simp add: consistent_resume)
qed

lemma consistent_foldl: "consistent s \<Longrightarrow> consistent (foldl step s actions)"
  by (induction actions arbitrary: s) (simp_all add: consistent_step)

text \<open>
  C2: whatever messages, disconnects and settlements the event loop runs, and in
  whatever order, once the controller of a generation is aborted (the port disconnected,
  or a new message replaced the controller) no chunk, done or error of that generation
  reaches the session: the callbacks of a late failure return silently, and the abort
  itself is not reported as an error.
\<close>

theorem no_event_after_abort: "silent_after_abort [] (history (run actions))"
  using consistent_foldl [OF consistent_initial, of actions]
  by (simp add: run_def consistent_def)

text \<open>
  Three runs of the scenario's stream: to its end; superseded by a second message after
  the first chunk; disconnected after the first chunk.  The reads settled after the abort
  deliver nothing.
\<close>

lemma cancellation_examples:
  \<open>history (run [Message (ascii ''summarizeSubtitlesStream''),
       Settle 0 (Prompts (ascii ''S'') (ascii ''U'')),
       Settle 0 (Config (Some scenario_config)),
       Settle 0 (Fetched (Resolves \<lparr>resp_ok = True, resp_status = 200, resp_statusText = [],
                    resp_text = Inr [], resp_body = Some ([], None)\<rparr>)),
       Settle 0 (Read (Value (bytes ''data: {"choices":[{"delta":{"content":"Hel"}}]}'' @ [0xA]))),
       Settle 0 (Read (Value (bytes ''data: {"choices":[{"delta":{"content":"lo"}}]}'' @ [0xA]))),
       Settle 0 (Read EndOfStream)])
     = [Posted 0 (Chunk (JStr (ascii ''Hel'')) JNull),
        Posted 0 (Chunk (JStr (ascii ''lo'')) JNull), Posted 0 Done]\<close>
  \<open>history (run [Message (ascii ''summarizeSubtitlesStream''),
       Settle 0 (Prompts (ascii ''S'') (ascii ''U'')),
       Settle 0 (Config (Some scenario_config)),
       Settle 0 (Fetched (Resolves \<lparr>resp_ok = True, resp_status = 200, resp_statusText = [],
                    resp_text = Inr [], resp_body = Some ([], None)\<rparr>)),
       Settle 0 (Read (Value (bytes ''data: {"choices":[{"delta":{"content":"Hel"}}]}'' @ [0xA]))),
       Message (ascii ''generateMindmapStream''),
       Settle 0 (Read (Value (bytes ''data: {"choices":[{"delta":{"content":"lo"}}]}'' @ [0xA]))),
       Settle 0 (Read EndOfStream)])
     = [Posted 0 (Chunk (JStr (ascii ''Hel'')) JNull), Aborted 0]\<close>
  \<open>history (run [Message (ascii ''summarizeSubtitlesStream''),
       Settle 0 (Prompts (ascii ''S'') (ascii ''U'')),
       Settle 0 (Config (Some scenario_config)),
       Settle 0 (Fetched (Resolves \<lparr>resp_ok = True, resp_status = 200, resp_statusText = [],
                    resp_text = Inr [], resp_body = Some ([], None)\<rparr>)),
       Settle 0 (Read (Value (bytes ''data: {"choices":[{"delta":{"content":"Hel"}}]}'' @ [0xA]))),
       Disconnect,
       Settle 0 (Read EndOfStream)])
     = [Posted 0 (Chunk (JStr (ascii ''Hel'')) JNull), Aborted 0]\<close>
  by (simp_all add: run_def initial_port_def streaming_actions_def set_stage_def
      prepare_def scenario_config_def lookup_member_def providers_def str_or_def
      read_settles_def fetch_settles_def read_step_def
      decode_defs line_defs abort_def onChunk_def onDone_def onError_def safePostMessage_def
      failure_def del: buildRequestConfig.simps)

section \<open>The step model and streamAI\<close>

text \<open>
  A generation that nothing disturbs posts, step by step, what the session observes of
  \<open>streamAI\<close> in the same world.
\<close>

lemma observed_append: "observed (a @ b) = observed a @ observed b"
  by (simp add: observed_def)

lemma deliver_live:
  "live s \<Longrightarrow>
   history (deliver 0 effs s) = history s @ map (Posted 0) (observed effs)
   \<and> live (deliver 0 effs s) \<and> stages (deliver 0 effs s) = stages s"
proof (induction "0 :: nat" effs s rule: deliver.induct)
  case (1 s)
  then show ?case by (simp add: observed_def)
next
  case (2 c es s)
  have "live (onChunk 0 c s)" using 2(2) by (simp add: live_def onChunk_def safePostMessage_def)
  from 2(1) [OF this] 2(2) show ?case
    by (simp add: observed_def onChunk_def safePostMessage_def live_def)
next
  case (3 es s)
  have "live (onDone 0 s)" using 3(2) by (simp add: live_def onDone_def safePostMessage_def)
  from 3(1) [OF this] 3(2) show ?case
    by (simp add: observed_def onDone_def safePostMessage_def live_def)
next
  case (4 m es s)
  have "live (onError 0 m s)" using 4(2) by (simp add: live_def onError_def safePostMessage_def)
  from 4(1) [OF this] 4(2) show ?case
    by (simp add: observed_def onError_def safePostMessage_def live_def)
qed (simp_all add: observed_def)


lemma set_stage_fields:
  "history (set_stage g st s) = history s" "live (set_stage g st s) = live s"
  "stages (set_stage g st s) g = st"
  by (simp_all add: set_stage_def live_def)

lemma step_Settle: "stages s g = st \<Longrightarrow> step s (Settle g x) = resume g st x s"
  by simp

lemma live_settles:
  "live s \<Longrightarrow> fetch_settles (0 \<in> set (aborted s)) res = res"
  "live s \<Longrightarrow> text_settles (0 \<in> set (aborted s)) t = t"
  "live s \<Longrightarrow> read_settles (0 \<in> set (aborted s)) rr = rr"
  by (simp_all add: live_def fetch_settles_def text_settles_def read_settles_def)

lemma foldl_reads:
  "live s \<Longrightarrow> stages s 0 = AwaitRead p st \<Longrightarrow>
   (let s' = foldl step s (map (\<lambda>v. Settle 0 (Read (Value v))) vals)
    in history s' = history s @ map (Posted 0) (observed (read_loop p st vals))
       \<and> live s' \<and> (\<exists>st'. stages s' 0 = AwaitRead p st'))"
proof (induction vals arbitrary: s st)
  case Nil
  then show ?case by (simp add: observed_def)
next
  case (Cons v vs)
  obtain st1 effs where rs: "read_step p st v = (st1, effs)" by (cases "read_step p st v")
  define s1 where "s1 = step s (Settle 0 (Read (Value v)))"
  have s1: "s1 = set_stage 0 (AwaitRead p st1) (deliver 0 effs s)"
    unfolding s1_def step_Settle [OF Cons.prems(2)]
    by (simp add: live_settles [OF Cons.prems(1)] rs)
  have d: "history (deliver 0 effs s) = history s @ map (Posted 0) (observed effs)"
    "live (deliver 0 effs s)"
    using deliver_live [OF Cons.prems(1), of effs] by simp_all
  have l1: "live s1" and g1: "stages s1 0 = AwaitRead p st1"
    and h1: "history s1 = history s @ map (Posted 0) (observed effs)"
    using d by (simp_all add: s1 set_stage_fields)
  from Cons.IH [OF l1 g1] show ?case
    unfolding list.map foldl_Cons s1_def [symmetric]
    by (simp add: Let_def rs h1 observed_append)
qed

lemma run_undisturbed:
  assumes "a \<in> set streaming_actions"
  shows "history (run (undisturbed a w systemPrompt userPrompt)) =
    map (Posted 0) (observed (streamAI w systemPrompt userPrompt))"
proof -
  define s2 where
    "s2 = foldl step initial_port [Message a, Settle 0 (Prompts systemPrompt userPrompt)]"
  have l2: "live s2" and h2: "history s2 = []"
    and g2: "stages s2 0 = AwaitConfig systemPrompt userPrompt"
    using assms by (simp_all add: s2_def initial_port_def Let_def set_stage_def live_def)
  define s3 where "s3 = step s2 (Settle 0 (Config (stored_config w)))"
  define rest where "rest = drop 2 (settlements w systemPrompt userPrompt)"
  have run3: "run (undisturbed a w systemPrompt userPrompt) =
      foldl step s3 (map (Settle 0) rest)"
    by (simp add: run_def undisturbed_def settlements_def s2_def s3_def rest_def
        del: step.simps)
  have obs: "observed (Fetch req # effs) = observed effs" for req effs
    by (simp add: observed_def)
  show ?thesis
  proof (cases "prepare (stored_config w) systemPrompt userPrompt")
    case (Inl m)
    have "s3 = set_stage 0 Finished (deliver 0 (failure m) s2)"
      unfolding s3_def step_Settle [OF g2] by (simp add: Inl)
    then have "history s3 = map (Posted 0) (observed (failure m))"
      using deliver_live [OF l2, of "failure m"] h2 by (simp add: set_stage_fields)
    moreover have "rest = []" by (simp add: rest_def settlements_def Inl)
    ultimately show ?thesis by (simp add: run3 streamAI_def Inl)
  next
    case (Inr t)
    obtain p config req where t: "t = (p, config, req)" by (cases t)
    have s3: "s3 = set_stage 0 (AwaitFetch p config) s2"
      unfolding s3_def step_Settle [OF g2] by (simp add: Inr t)
    have l3: "live s3" and h3: "history s3 = []" and g3: "stages s3 0 = AwaitFetch p config"
      using l2 h2 by (simp_all add: s3 set_stage_fields)
    define s4 where "s4 = step s3 (Settle 0 (Fetched (fetch w req)))"
    define rest4 where "rest4 = drop 3 (settlements w systemPrompt userPrompt)"
    have run4: "run (undisturbed a w systemPrompt userPrompt) =
        foldl step s4 (map (Settle 0) rest4)"
      by (simp add: run3 rest_def rest4_def s4_def settlements_def Inr t del: step.simps)
    have big: "streamAI w systemPrompt userPrompt = Fetch req # on_response p config (fetch w req)"
      by (simp add: streamAI_def Inr t)
    have s4r: "s4 = resume 0 (AwaitFetch p config) (Fetched (fetch w req)) s3"
      unfolding s4_def by (rule step_Settle [OF g3])
    show ?thesis
    proof (cases "fetch w req")
      case (Rejects m)
      have "s4 = set_stage 0 Finished (deliver 0 (failure m) s3)"
        by (simp add: s4r live_settles [OF l3] Rejects)
      then have "history s4 = map (Posted 0) (observed (failure m))"
        using deliver_live [OF l3, of "failure m"] h3 by (simp add: set_stage_fields)
      moreover have "rest4 = []" by (simp add: rest4_def settlements_def Inr t Rejects)
      ultimately show ?thesis by (simp add: run4 big obs on_response_def Rejects)
    next
      case (Resolves r)
      show ?thesis
      proof (cases "resp_ok r")
        case False
        have s4: "s4 = set_stage 0 (AwaitText config (resp_status r) (resp_statusText r)) s3"
          using False by (simp add: s4r live_settles [OF l3] Resolves)
        have l4: "live s4" and h4: "history s4 = []"
          and g4: "stages s4 0 = AwaitText config (resp_status r) (resp_statusText r)"
          using l3 h3 by (simp_all add: s4 set_stage_fields)
        have r4: "rest4 = [Text (resp_text r)]"
          using False by (simp add: rest4_def settlements_def Inr t Resolves)
        have "history (step s4 (Settle 0 (Text (resp_text r)))) =
            map (Posted 0) (observed (on_response p config (fetch w req)))"
          unfolding step_Settle [OF g4]
          using False deliver_live [OF l4] h4
          by (simp add: live_settles [OF l4] on_response_def Resolves set_stage_fields
              split: sum.splits)
        then show ?thesis by (simp add: run4 r4 big obs del: step.simps)
      next
        case True
        show ?thesis
        proof (cases "resp_body r")
          case None
          have "s4 = set_stage 0 Finished (deliver 0 (failure no_stream) s3)"
            using True None by (simp add: s4r live_settles [OF l3] Resolves)
          then have "history s4 = map (Posted 0) (observed (failure no_stream))"
            using deliver_live [OF l3, of "failure no_stream"] h3
            by (simp add: set_stage_fields)
          moreover have "rest4 = []"
            using True None by (simp add: rest4_def settlements_def Inr t Resolves)
          ultimately show ?thesis
            using True None by (simp add: run4 big obs on_response_def Resolves)
        next
          case (Some b)
          obtain vals ending where b: "b = (vals, ending)" by (cases b)
          have s4: "s4 = set_stage 0 (AwaitRead p (new_TextDecoder, [])) s3"
            using True Some by (simp add: s4r live_settles [OF l3] Resolves)
          have l4: "live s4" and h4: "history s4 = []"
            and g4: "stages s4 0 = AwaitRead p (new_TextDecoder, [])"
            using l3 h3 by (simp_all add: s4 set_stage_fields)
          define s5 where "s5 = foldl step s4 (map (\<lambda>v. Settle 0 (Read (Value v))) vals)"
          from foldl_reads [OF l4 g4, of vals] h4 obtain st' where
            h5: "history s5 = map (Posted 0)
                (observed (read_loop p (new_TextDecoder, []) vals))"
            and l5: "live s5" and g5: "stages s5 0 = AwaitRead p st'"
            by (auto simp: Let_def s5_def)
          define last_read where
            "last_read = (case ending of None \<Rightarrow> EndOfStream | Some m \<Rightarrow> ReadFails m)"
          have r4: "rest4 = map (\<lambda>v. Read (Value v)) vals @ [Read last_read]"
            using True Some b
            by (simp add: rest4_def settlements_def Inr t Resolves last_read_def)
          have run5: "run (undisturbed a w systemPrompt userPrompt) =
              step s5 (Settle 0 (Read last_read))"
            by (simp add: run4 r4 s5_def comp_def del: step.simps)
          have "history (step s5 (Settle 0 (Read last_read))) =
              history s5 @ map (Posted 0) (observed
                (case ending of None \<Rightarrow> [OnDone] | Some m \<Rightarrow> failure m))"
            unfolding step_Settle [OF g5]
            using deliver_live [OF l5]
            by (simp add: live_settles [OF l5] last_read_def set_stage_fields
                split: option.splits del: deliver.simps)
          then show ?thesis
            using True Some b
            by (simp add: run5 h5 big obs on_response_def Resolves observed_append)
        qed
      qed
    qed
  qed
qed

end
